theory Spec2Isabelle
  imports Main "HOL-Library.AList"
begin

section \<open>Strings\<close>

text \<open>
  JavaScript strings are modelled as \<open>string\<close>, one \<open>char\<close> per character, read as
  Latin-1: the accented letters of the Portuguese messages are written by their code
  (\<open>0xE0\<close> a-grave, \<open>0xE1\<close> a-acute, \<open>0xE3\<close> a-tilde, \<open>0xE7\<close> c-cedilla,
  \<open>0xE9\<close> e-acute, \<open>0xED\<close> i-acute, \<open>0xF3\<close> o-acute, \<open>0xF5\<close> o-tilde).
  \<open>String.prototype.trim\<close> removes the white space and line terminators of that range
  at both ends, and \<open>toLowerCase\<close> maps its capital letters.
\<close>

definition is_space :: "char \<Rightarrow> bool" where
  "is_space c = (c \<in> set [CHR 0x09, CHR 0x0A, CHR 0x0B, CHR 0x0C, CHR 0x0D, CHR 0x20, CHR 0xA0])"

definition trim :: "string \<Rightarrow> string" where
  "trim s = rev (dropWhile is_space (rev (dropWhile is_space s)))"

definition to_lower_char :: "char \<Rightarrow> char" where
  "to_lower_char c =
     (let n = (of_char c :: nat)
      in if (65 \<le> n \<and> n \<le> 90) \<or> (192 \<le> n \<and> n \<le> 222 \<and> n \<noteq> 215)
         then char_of (n + 32) else c)"

definition toLowerCase :: "string \<Rightarrow> string" where
  "toLowerCase s = map to_lower_char s"

text \<open>\<open>s.replace(a, b)\<close> with a one-character pattern: only the first occurrence.\<close>

fun replace_first :: "char \<Rightarrow> char \<Rightarrow> string \<Rightarrow> string" where
  "replace_first a b [] = []"
| "replace_first a b (c # cs) = (if c = a then b # cs else c # replace_first a b cs)"

text \<open>\<open>a || b\<close> on strings: the empty string is falsy.\<close>

definition or_else :: "string \<Rightarrow> string \<Rightarrow> string" where
  "or_else a b = (if a = [] then b else a)"

section \<open>The streaming transport\<close>

text \<open>
  A connection handle (the \<open>call\<close> object of a stream) is identified by a number.
  \<open>call.write(payload)\<close> is the only operation on it that the fanout code uses: the
  transport records every call of \<open>write\<close> in order and answers whether it threw.
  \<open>wfails c\<close> says that writing to \<open>c\<close> always throws.
\<close>

type_synonym conn = nat

record 'p transport =
  wfails :: "conn \<Rightarrow> bool"
  wlog :: "(conn \<times> 'p) list"

definition call_write :: "conn \<Rightarrow> 'p \<Rightarrow> 'p transport \<Rightarrow> 'p transport \<times> bool" where
  "call_write c p t = (t\<lparr>wlog := wlog t @ [(c, p)]\<rparr>, wfails t c)"

text \<open>What a connection has received: the payloads written to it, unless its writes throw.\<close>

definition received :: "'p transport \<Rightarrow> conn \<Rightarrow> 'p list" where
  "received t c = (if wfails t c then [] else map snd (filter (\<lambda>e. fst e = c) (wlog t)))"

section \<open>TaskService: sessions and dispatch\<close>

text \<open>
  Errors as values: the \<open>GrpcAppError\<close>s the services throw, with their message, the
  exception of a \<open>write\<close> that throws, and any other error with its message (a rejected
  database promise).
\<close>

datatype error =
    Unauthenticated string
  | InvalidArgument string
  | NotFound string
  | Internal string
  | WriteError
  | OtherError string

record user =
  u_id :: string
  u_username :: string

text \<open>
  \<open>Task\<close> (models/Task.js) is not among the sources: a task is the record of the fields
  the service gives its constructor, and \<open>task.toProtobuf()\<close> is a parameter, a function
  that returns for every task.
\<close>

record task =
  t_id :: string
  t_title :: string
  t_description :: string
  t_priority :: string
  t_userId :: string
  t_completed :: bool

text \<open>
  The \<open>completed\<close> field of a stream request, as JavaScript sees it: \<open>undefined\<close>,
  \<open>null\<close> or a boolean.
\<close>

datatype jsbool = JUndefined | JNull | JBool bool

text \<open>
  A session object: \<open>{call, userId, filter: {completed}}\<close> for a task stream
  (\<open>stype = None\<close>), \<open>{call, userId, type: 'notifications'}\<close> for a notification stream
  (\<open>sfilter = None\<close>). \<open>sfilter = Some v\<close> is the filter object whose \<open>completed\<close> is \<open>v\<close>.
\<close>

record session =
  call :: conn
  userId :: string
  stype :: "string option"
  sfilter :: "jsbool option"

record 'pb envelope =
  e_type :: "nat option"
  e_task :: "'pb option"
  e_message :: string
  e_timestamp :: nat

datatype 'pb payload = TaskPb 'pb | Envelope "'pb envelope"

text \<open>
  \<open>streamingSessions\<close> is a JavaScript \<open>Map\<close>: an association list in insertion order,
  \<open>set\<close> is \<open>AList.update\<close>, \<open>delete\<close> is \<open>AList.delete\<close>.
\<close>

record 'pb tstate =
  streamingSessions :: "(string \<times> session) list"
  tnet :: "'pb payload transport"

definition notificationTypeMap :: "string \<Rightarrow> nat option" where
  "notificationTypeMap = map_of
     [(''TASK_CREATED'', 0), (''TASK_UPDATED'', 1), (''TASK_DELETED'', 2), (''TASK_COMPLETED'', 3)]"

text \<open>
  One \<open>session.call.write(p)\<close> inside the \<open>try\<close> of \<open>notifyStreams\<close>: when it throws, the
  \<open>catch\<close> deletes the session.
\<close>

definition try_write :: "string \<Rightarrow> conn \<Rightarrow> 'pb payload \<Rightarrow> 'pb tstate \<Rightarrow> 'pb tstate" where
  "try_write sessionId c p s =
     (let (t, threw) = call_write c p (tnet s)
      in if threw
         then s\<lparr>streamingSessions := AList.delete sessionId (streamingSessions s), tnet := t\<rparr>
         else s\<lparr>tnet := t\<rparr>)"

text \<open>The body of the loop of \<open>notifyStreams\<close>, for one entry of the map.\<close>

definition notify_one ::
  "(task \<Rightarrow> 'pb) \<Rightarrow> string \<Rightarrow> task \<Rightarrow> nat \<Rightarrow> string \<Rightarrow> session \<Rightarrow> 'pb tstate \<Rightarrow> 'pb tstate" where
  "notify_one toProtobuf action t now sessionId se s =
     (if userId se = t_userId t then
        (if stype se = Some ''notifications'' then
           try_write sessionId (call se)
             (Envelope \<lparr>e_type = notificationTypeMap action,
                        e_task = Some (toProtobuf t),
                        e_message = ''Tarefa '' @ replace_first (CHR ''_'') (CHR '' '') (toLowerCase action),
                        e_timestamp = now\<rparr>) s
         else
           (case sfilter se of
              None \<Rightarrow> s
            | Some completed \<Rightarrow>
                (if completed = JUndefined \<or> completed = JBool (t_completed t) then
                   (if action \<noteq> ''TASK_DELETED'' then
                      try_write sessionId (call se) (TaskPb (toProtobuf t)) s
                    else s)
                 else s)))
      else s)"

text \<open>
  The loop runs over the entries of the map. The only entry the body can delete is the one
  being visited, so the iteration visits exactly the entries present when it started.
\<close>

fun notify_loop ::
  "(task \<Rightarrow> 'pb) \<Rightarrow> string \<Rightarrow> task \<Rightarrow> nat \<Rightarrow> (string \<times> session) list \<Rightarrow> 'pb tstate \<Rightarrow> 'pb tstate" where
  "notify_loop toProtobuf action t now [] s = s"
| "notify_loop toProtobuf action t now ((sessionId, se) # es) s =
     notify_loop toProtobuf action t now es (notify_one toProtobuf action t now sessionId se s)"

definition notifyStreams ::
  "(task \<Rightarrow> 'pb) \<Rightarrow> string \<Rightarrow> task \<Rightarrow> nat \<Rightarrow> 'pb tstate \<Rightarrow> 'pb tstate" where
  "notifyStreams toProtobuf action t now s =
     notify_loop toProtobuf action t now (streamingSessions s) s"


section \<open>TaskService: the handlers\<close>

text \<open>
  The collaborators that are not among the sources are parameters: \<open>jwt.verify\<close>,
  \<open>ProtoLoader.convertFromPriority\<close>, \<open>task.validate().isValid\<close> and \<open>task.toProtobuf()\<close>.
  The answers of the database (the promise of \<open>database.run\<close>, \<open>get\<close>, \<open>all\<close>), the
  identifier drawn by \<open>uuidv4()\<close> and the clock \<open>Math.floor(Date.now() / 1000)\<close>, read once
  for each handler run, are inputs of the handler. Each handler runs as one step.
\<close>

record 'pb ext =
  jwt_verify :: "string \<Rightarrow> user option"
  convertFromPriority :: "nat \<Rightarrow> string"
  task_valid :: "task \<Rightarrow> bool"
  toProtobuf :: "task \<Rightarrow> 'pb"

text \<open>
  The promise of a database call: rejected with an error of some message, or resolved.
  \<open>toServiceError\<close> turns an error that is not a \<open>GrpcAppError\<close> into an internal error
  with its message, or \<open>Erro interno\<close> when it has none.
\<close>

datatype 'a dbres = Rejected string | Resolved 'a

definition toServiceError :: "string \<Rightarrow> error" where
  "toServiceError m = Internal (or_else m ''Erro interno'')"

text \<open>
  The database module (database/database.js) is not among the sources. What it answers to
  the statement of \<open>createTask\<close>, a plain \<open>INSERT INTO tasks (...) VALUES (...)\<close> of one row:
  the promise is rejected, or it resolves with one row changed.
\<close>

definition insert_answer :: "nat dbres \<Rightarrow> bool" where
  "insert_answer r = (case r of Rejected m \<Rightarrow> True | Resolved changes \<Rightarrow> changes = 1)"

record row =
  r_id :: string
  r_title :: string
  r_description :: string
  r_priority :: string
  r_userId :: string
  r_completed :: int

text \<open>\<open>new Task({ ...row, completed: row.completed === 1 })\<close>\<close>

definition task_of_row :: "row \<Rightarrow> task" where
  "task_of_row r =
     \<lparr>t_id = r_id r, t_title = r_title r, t_description = r_description r,
      t_priority = r_priority r, t_userId = r_userId r, t_completed = (r_completed r = 1)\<rparr>"

record 'pb reply =
  success :: bool
  message :: string
  rtask :: "'pb option"

definition task_validateToken :: "'pb ext \<Rightarrow> string \<Rightarrow> error + user" where
  "task_validateToken X token =
     (case jwt_verify X token of
        None \<Rightarrow> Inl (Unauthenticated (''Token inv'' @ [CHR 0xE1] @ ''lido''))
      | Some u \<Rightarrow> Inr u)"

definition title_required :: error where
  "title_required =
     InvalidArgument (''T'' @ [CHR 0xED] @ ''tulo '' @ [CHR 0xE9] @ '' obrigat'' @ [CHR 0xF3] @ ''rio'')"

text \<open>
  \<open>createTask\<close>: \<open>title\<close> and \<open>description\<close> are \<open>None\<close> when \<open>undefined\<close>; \<open>run\<close> is the
  answer of the \<open>INSERT\<close>, with the number of rows it changed, which the handler does not
  read.
\<close>

definition createTask ::
  "'pb ext \<Rightarrow> string \<Rightarrow> string option \<Rightarrow> string option \<Rightarrow> nat \<Rightarrow> string \<Rightarrow> nat \<Rightarrow> nat dbres
     \<Rightarrow> 'pb tstate \<Rightarrow> 'pb tstate \<times> (error + 'pb reply)" where
  "createTask X token title description priority uuid now run s =
     (case task_validateToken X token of
        Inl e \<Rightarrow> (s, Inl e)
      | Inr u \<Rightarrow>
          (case title of
             None \<Rightarrow> (s, Inl title_required)
           | Some ti \<Rightarrow>
               (if ti = [] \<or> trim ti = [] then (s, Inl title_required)
                else
                  (let t = \<lparr>t_id = uuid, t_title = trim ti,
                            t_description = (case description of None \<Rightarrow> [] | Some d \<Rightarrow> d),
                            t_priority = convertFromPriority X priority,
                            t_userId = u_id u, t_completed = False\<rparr>
                   in if \<not> task_valid X t then
                        (s, Inl (InvalidArgument (''Dados inv'' @ [CHR 0xE1] @ ''lidos'')))
                      else
                        (case run of
                           Rejected m \<Rightarrow> (s, Inl (toServiceError m))
                         | Resolved changes \<Rightarrow>
                             (notifyStreams (toProtobuf X) ''TASK_CREATED'' t now s,
                              Inr \<lparr>success = True, message = ''Tarefa criada com sucesso'',
                                   rtask = Some (toProtobuf X t)\<rparr>))))))"

definition task_not_found :: error where
  "task_not_found = NotFound (''Tarefa n'' @ [CHR 0xE3] @ ''o encontrada'')"

text \<open>
  \<open>updateTask\<close>: \<open>existing\<close> is the answer of the first \<open>database.get\<close>, \<open>run\<close> the number
  of rows the \<open>UPDATE\<close> changed, \<open>updated\<close> the answer of the second \<open>database.get\<close>.
  The fields \<open>title\<close>, \<open>description\<close>, \<open>completed\<close> and \<open>priority\<close> of the request
  (\<open>None\<close> is \<open>undefined\<close>) go into the parameters of the \<open>UPDATE\<close> and nowhere else:
  the task that is dispatched and returned is read back from the store.
\<close>

definition updateTask ::
  "'pb ext \<Rightarrow> string \<Rightarrow> string option \<Rightarrow> string option \<Rightarrow> bool option \<Rightarrow> nat option
     \<Rightarrow> row option dbres \<Rightarrow> nat dbres \<Rightarrow> row option dbres \<Rightarrow> nat
     \<Rightarrow> 'pb tstate \<Rightarrow> 'pb tstate \<times> (error + 'pb reply)" where
  "updateTask X token title description completed priority existing run updated now s =
     (case task_validateToken X token of
        Inl e \<Rightarrow> (s, Inl e)
      | Inr u \<Rightarrow>
          (case existing of
             Rejected m \<Rightarrow> (s, Inl (toServiceError m))
           | Resolved None \<Rightarrow> (s, Inl task_not_found)
           | Resolved (Some ex) \<Rightarrow>
               (case run of
                  Rejected m \<Rightarrow> (s, Inl (toServiceError m))
                | Resolved changes \<Rightarrow>
                    (if changes = 0 then (s, Inl (Internal ''Falha ao atualizar tarefa''))
                     else
                       (case updated of
                          Rejected m \<Rightarrow> (s, Inl (toServiceError m))
                        | Resolved None \<Rightarrow>
                            (s, Inl (toServiceError ''Cannot read properties of undefined (reading 'completed')''))
                        | Resolved (Some up) \<Rightarrow>
                            (let t = task_of_row up
                             in (notifyStreams (toProtobuf X) ''TASK_UPDATED'' t now s,
                                 Inr \<lparr>success = True, message = ''Tarefa atualizada com sucesso'',
                                      rtask = Some (toProtobuf X t)\<rparr>)))))))"

definition deleteTask ::
  "'pb ext \<Rightarrow> string \<Rightarrow> row option dbres \<Rightarrow> nat dbres \<Rightarrow> nat
     \<Rightarrow> 'pb tstate \<Rightarrow> 'pb tstate \<times> (error + 'pb reply)" where
  "deleteTask X token existing run now s =
     (case task_validateToken X token of
        Inl e \<Rightarrow> (s, Inl e)
      | Inr u \<Rightarrow>
          (case existing of
             Rejected m \<Rightarrow> (s, Inl (toServiceError m))
           | Resolved None \<Rightarrow> (s, Inl task_not_found)
           | Resolved (Some ex) \<Rightarrow>
               (case run of
                  Rejected m \<Rightarrow> (s, Inl (toServiceError m))
                | Resolved changes \<Rightarrow>
                    (if changes = 0 then (s, Inl (Internal ''Falha ao deletar tarefa''))
                     else
                       (notifyStreams (toProtobuf X) ''TASK_DELETED'' (task_of_row ex) now s,
                        Inr \<lparr>success = True, message = ''Tarefa deletada com sucesso'',
                             rtask = None\<rparr>)))))"

text \<open>
  How a stream handler ends: the stream stays open under a session id, or the handler
  caught an error and called \<open>call.destroy(new Error(error.message || 'Erro no streaming'))\<close>.
  \<open>destroyed_with e\<close> is the error handed to \<open>call.destroy\<close> when \<open>e\<close> was caught: a plain
  error with the message of \<open>e\<close>, or \<open>Erro no streaming\<close> when that message is empty. The
  transport does not name the message of the exception of a \<open>write\<close>, so that one stays
  \<open>WriteError\<close>.
\<close>

datatype outcome = Destroyed error | Opened string

definition destroyed_with :: "error \<Rightarrow> error" where
  "destroyed_with e =
     (case e of
        Unauthenticated m \<Rightarrow> OtherError (or_else m ''Erro no streaming'')
      | InvalidArgument m \<Rightarrow> OtherError (or_else m ''Erro no streaming'')
      | NotFound m \<Rightarrow> OtherError (or_else m ''Erro no streaming'')
      | Internal m \<Rightarrow> OtherError (or_else m ''Erro no streaming'')
      | WriteError \<Rightarrow> WriteError
      | OtherError m \<Rightarrow> OtherError (or_else m ''Erro no streaming''))"

text \<open>
  The query of \<open>streamTasks\<close>: \<open>SELECT * FROM tasks WHERE userId = ?\<close>, with
  \<open>AND completed = ?\<close> added when \<open>completed\<close> is neither \<open>undefined\<close> nor \<open>null\<close>, ordered
  by \<open>createdAt\<close>. \<open>q_completed = None\<close> is the query without that condition.
\<close>

record task_query =
  q_userId :: string
  q_completed :: "bool option"

definition stream_query :: "string \<Rightarrow> jsbool \<Rightarrow> task_query" where
  "stream_query uid completed =
     \<lparr>q_userId = uid,
      q_completed = (if completed \<noteq> JUndefined \<and> completed \<noteq> JNull
                     then (case completed of JBool b \<Rightarrow> Some b | JUndefined \<Rightarrow> None | JNull \<Rightarrow> None)
                     else None)\<rparr>"

text \<open>The replay loop of \<open>streamTasks\<close>: stops at the first \<open>write\<close> that throws.\<close>

fun write_rows ::
  "(task \<Rightarrow> 'pb) \<Rightarrow> conn \<Rightarrow> row list \<Rightarrow> 'pb payload transport \<Rightarrow> 'pb payload transport \<times> bool" where
  "write_rows tp c [] t = (t, False)"
| "write_rows tp c (r # rs) t =
     (let (t', threw) = call_write c (TaskPb (tp (task_of_row r))) t
      in if threw then (t', True) else write_rows tp c rs t')"

text \<open>
  \<open>streamTasks\<close>: \<open>db_all\<close> is \<open>database.all\<close>, the answer of the store to a query. The
  session keeps \<open>completed\<close> as the request gave it.
\<close>

definition streamTasks ::
  "'pb ext \<Rightarrow> conn \<Rightarrow> string \<Rightarrow> jsbool \<Rightarrow> (task_query \<Rightarrow> row list dbres) \<Rightarrow> string
     \<Rightarrow> 'pb tstate \<Rightarrow> 'pb tstate \<times> outcome" where
  "streamTasks X c token completed db_all uuid s =
     (case task_validateToken X token of
        Inl e \<Rightarrow> (s, Destroyed (destroyed_with e))
      | Inr u \<Rightarrow>
          (case db_all (stream_query (u_id u) completed) of
             Rejected m \<Rightarrow> (s, Destroyed (destroyed_with (OtherError m)))
           | Resolved rs \<Rightarrow>
               (let (t, threw) = write_rows (toProtobuf X) c rs (tnet s)
                in if threw then (s\<lparr>tnet := t\<rparr>, Destroyed WriteError)
                   else
                     (s\<lparr>streamingSessions :=
                          AList.update uuid
                            \<lparr>call = c, userId = u_id u, stype = None, sfilter = Some completed\<rparr>
                            (streamingSessions s),
                        tnet := t\<rparr>,
                      Opened uuid))))"

definition initial_envelope :: "nat \<Rightarrow> 'pb envelope" where
  "initial_envelope now =
     \<lparr>e_type = Some 0, e_task = None,
      e_message = ''Stream de notifica'' @ [CHR 0xE7, CHR 0xF5] @ ''es iniciado'',
      e_timestamp = now\<rparr>"

definition streamNotifications ::
  "'pb ext \<Rightarrow> conn \<Rightarrow> string \<Rightarrow> string \<Rightarrow> nat \<Rightarrow> 'pb tstate \<Rightarrow> 'pb tstate \<times> outcome" where
  "streamNotifications X c token uuid now s =
     (case task_validateToken X token of
        Inl e \<Rightarrow> (s, Destroyed (destroyed_with e))
      | Inr u \<Rightarrow>
          (let s1 = s\<lparr>streamingSessions :=
                       AList.update uuid
                         \<lparr>call = c, userId = u_id u, stype = Some ''notifications'', sfilter = None\<rparr>
                         (streamingSessions s)\<rparr>;
               (t, threw) = call_write c (Envelope (initial_envelope now)) (tnet s1)
           in if threw then (s1\<lparr>tnet := t\<rparr>, Destroyed WriteError)
              else (s1\<lparr>tnet := t\<rparr>, Opened uuid)))"

text \<open>
  The \<open>cancelled\<close> handler of both streams and the \<open>error\<close> handler of the notification
  stream: \<open>this.streamingSessions.delete(sessionId)\<close>.
\<close>

definition on_cancelled :: "string \<Rightarrow> 'pb tstate \<Rightarrow> 'pb tstate" where
  "on_cancelled sessionId s =
     s\<lparr>streamingSessions := AList.delete sessionId (streamingSessions s)\<rparr>"

text \<open>
  The states of the service: it starts with no session and nothing written, and every
  handler that touches the sessions or a connection is a step.
\<close>

inductive task_reachable :: "'pb ext \<Rightarrow> 'pb tstate \<Rightarrow> bool" for X :: "'pb ext" where
  t_init: "task_reachable X \<lparr>streamingSessions = [], tnet = \<lparr>wfails = F, wlog = []\<rparr>\<rparr>"
| t_create: "task_reachable X s \<Longrightarrow>
     task_reachable X (fst (createTask X token title description priority uuid now run s))"
| t_update: "task_reachable X s \<Longrightarrow>
     task_reachable X
       (fst (updateTask X token title description completed priority existing run updated now s))"
| t_delete: "task_reachable X s \<Longrightarrow>
     task_reachable X (fst (deleteTask X token existing run now s))"
| t_streamTasks: "task_reachable X s \<Longrightarrow>
     task_reachable X (fst (streamTasks X c token completed db_all uuid s))"
| t_streamNotifications: "task_reachable X s \<Longrightarrow>
     task_reachable X (fst (streamNotifications X c token uuid now s))"
| t_cancelled: "task_reachable X s \<Longrightarrow> task_reachable X (on_cancelled sessionId s)"

section \<open>ChatService\<close>

text \<open>An inbound message of the duplex stream, and the message the service writes.\<close>

record chat_in =
  m_room :: string
  m_text :: string

record chat_msg =
  room :: string
  mtext :: string
  sender_id :: string
  sender_name :: string
  timestamp :: nat
  mtype :: nat

text \<open>
  The collaborators of the chat service: \<open>jwt.verify\<close>, and for each call the first
  \<open>authorization\<close> value of its metadata and the \<open>token\<close> of its request, when present.
\<close>

record chat_ext =
  c_verify :: "string \<Rightarrow> user option"
  authorization :: "conn \<Rightarrow> string option"
  request_token :: "conn \<Rightarrow> string option"

text \<open>The closure of one \<open>Chat(call)\<close>: the variables \<open>joinedRoom\<close> and \<open>user\<close>.\<close>

record stream =
  joinedRoom :: "string option"
  suser :: "user option"

text \<open>
  \<open>rooms\<close> is a \<open>Map\<close> from room name to a \<open>Set\<close> of calls; a \<open>Set\<close> is the list of its
  elements in insertion order. \<open>destroyed\<close> records the calls of \<open>call.destroy(err)\<close>.
\<close>

record chat_state =
  rooms :: "string \<rightharpoonup> conn list"
  streams :: "conn \<Rightarrow> stream"
  cnet :: "chat_msg transport"
  destroyed :: "(conn \<times> error) list"

definition set_add :: "'a \<Rightarrow> 'a list \<Rightarrow> 'a list" where
  "set_add x xs = (if x \<in> set xs then xs else xs @ [x])"

definition set_delete :: "'a \<Rightarrow> 'a list \<Rightarrow> 'a list" where
  "set_delete x xs = removeAll x xs"

definition falsy :: "string option \<Rightarrow> bool" where
  "falsy v = (v = None \<or> v = Some [])"

definition chat_validateToken :: "chat_ext \<Rightarrow> conn \<Rightarrow> error + user" where
  "chat_validateToken X source =
     (let token0 = (case authorization X source of
                      Some auth \<Rightarrow> if take 7 auth = ''Bearer '' then Some (drop 7 auth) else None
                    | None \<Rightarrow> None);
          token = (if falsy token0 \<and> \<not> falsy (request_token X source)
                   then request_token X source else token0)
      in case token of
           None \<Rightarrow> Inl (Unauthenticated ''Token ausente'')
         | Some tok \<Rightarrow>
             (if tok = [] then Inl (Unauthenticated ''Token ausente'')
              else (case c_verify X tok of
                      None \<Rightarrow> Inl (Unauthenticated (''Token inv'' @ [CHR 0xE1] @ ''lido''))
                    | Some u \<Rightarrow> Inr u)))"

definition ensureRoom :: "string \<Rightarrow> chat_state \<Rightarrow> chat_state" where
  "ensureRoom r s = (if rooms s r = None then s\<lparr>rooms := (rooms s)(r \<mapsto> [])\<rparr> else s)"

text \<open>
  The loop of \<open>_broadcast\<close>: \<open>try { c.write(message); } catch (_) {}\<close> drops the
  exception, so only the transport changes.
\<close>

fun broadcast_loop ::
  "conn list \<Rightarrow> chat_msg \<Rightarrow> conn option \<Rightarrow> chat_msg transport \<Rightarrow> chat_msg transport" where
  "broadcast_loop [] m exceptCall t = t"
| "broadcast_loop (c # cs) m exceptCall t =
     (if Some c = exceptCall then broadcast_loop cs m exceptCall t
      else broadcast_loop cs m exceptCall (fst (call_write c m t)))"

definition broadcast :: "string \<Rightarrow> chat_msg \<Rightarrow> conn option \<Rightarrow> chat_state \<Rightarrow> chat_state" where
  "broadcast r m exceptCall s =
     (case rooms s r of
        None \<Rightarrow> s
      | Some members \<Rightarrow> s\<lparr>cnet := broadcast_loop members m exceptCall (cnet s)\<rparr>)"

definition leaveRoom :: "conn \<Rightarrow> nat \<Rightarrow> chat_state \<Rightarrow> chat_state" where
  "leaveRoom c now s =
     (let st = streams s c;
          s1 = (case joinedRoom st of
                  None \<Rightarrow> s
                | Some r \<Rightarrow>
                    (case (if r = [] then None else rooms s r) of
                       None \<Rightarrow> s
                     | Some members \<Rightarrow>
                         (let members' = set_delete c members;
                              s' = s\<lparr>rooms := (if length members' = 0 then (rooms s)(r := None)
                                                else (rooms s)(r \<mapsto> members'))\<rparr>;
                              leaveMsg =
                                \<lparr>room = r,
                                 mtext = or_else (case suser st of None \<Rightarrow> [] | Some u \<Rightarrow> u_username u)
                                          (''algu'' @ [CHR 0xE9] @ ''m'') @ '' saiu da sala'',
                                 sender_id = (case suser st of None \<Rightarrow> [] | Some u \<Rightarrow> u_id u),
                                 sender_name = (case suser st of None \<Rightarrow> [] | Some u \<Rightarrow> u_username u),
                                 timestamp = now, mtype = 2\<rparr>
                          in broadcast r leaveMsg None s')))
      in s1\<lparr>streams := (streams s1)(c := (streams s1 c)\<lparr>joinedRoom := None\<rparr>)\<rparr>)"

definition destroy :: "conn \<Rightarrow> error \<Rightarrow> chat_state \<Rightarrow> chat_state" where
  "destroy c e s = s\<lparr>destroyed := destroyed s @ [(c, e)]\<rparr>"

text \<open>
  The block of the \<open>data\<close> handler under \<open>if (!joinedRoom)\<close>: join the room, broadcast the
  join message, write the welcome to the call. The result says whether that last
  \<open>write\<close> threw.
\<close>

definition join_block :: "conn \<Rightarrow> user \<Rightarrow> string \<Rightarrow> nat \<Rightarrow> chat_state \<Rightarrow> chat_state \<times> bool" where
  "join_block c u r now s =
     (let s1 = s\<lparr>streams := (streams s)(c := (streams s c)\<lparr>joinedRoom := Some r\<rparr>)\<rparr>;
          s2 = ensureRoom r s1;
          s3 = s2\<lparr>rooms := (rooms s2)(r \<mapsto> set_add c (case rooms s2 r of Some ms \<Rightarrow> ms | None \<Rightarrow> []))\<rparr>;
          joinMsg = \<lparr>room = r, mtext = u_username u @ '' entrou na sala'',
                     sender_id = u_id u, sender_name = u_username u,
                     timestamp = now, mtype = 1\<rparr>;
          s4 = broadcast r joinMsg None s3;
          (t, threw) = call_write c
                         \<lparr>room = r, mtext = ''Bem-vindo '' @ [CHR 0xE0] @ '' sala '' @ r @ ''!'',
                          sender_id = ''system'', sender_name = ''system'',
                          timestamp = now, mtype = 3\<rparr> (cnet s4)
      in (s4\<lparr>cnet := t\<rparr>, threw))"

text \<open>The block under \<open>if (msg.text && msg.text.trim())\<close>.\<close>

definition text_block :: "conn \<Rightarrow> user \<Rightarrow> chat_in \<Rightarrow> nat \<Rightarrow> chat_state \<Rightarrow> chat_state" where
  "text_block c u msg now s =
     (if m_text msg \<noteq> [] \<and> trim (m_text msg) \<noteq> [] then
        (case joinedRoom (streams s c) of
           None \<Rightarrow> s
         | Some r \<Rightarrow>
             broadcast r
               \<lparr>room = r, mtext = trim (m_text msg), sender_id = u_id u,
                sender_name = u_username u, timestamp = now, mtype = 0\<rparr>
               None s)
      else s)"

text \<open>
  The \<open>data\<close> handler of \<open>Chat(call)\<close>, run as one step, with the clock
  \<open>Math.floor(Date.now() / 1000)\<close> read once; every \<open>throw\<close> inside the \<open>try\<close> ends in
  \<open>call.destroy\<close>.
\<close>

definition on_data :: "chat_ext \<Rightarrow> conn \<Rightarrow> chat_in \<Rightarrow> nat \<Rightarrow> chat_state \<Rightarrow> chat_state" where
  "on_data X c msg now s =
     (case (case suser (streams s c) of Some u \<Rightarrow> Inr u | None \<Rightarrow> chat_validateToken X c) of
        Inl e \<Rightarrow> destroy c e s
      | Inr u \<Rightarrow>
          (let s0 = s\<lparr>streams := (streams s)(c := (streams s c)\<lparr>suser := Some u\<rparr>)\<rparr>;
               r = trim (m_room msg)
           in if r = [] then
                destroy c (InvalidArgument (''room '' @ [CHR 0xE9] @ '' obrigat'' @ [CHR 0xF3] @ ''rio'')) s0
              else
                (let (s1, threw) = (if falsy (joinedRoom (streams s0 c))
                                    then join_block c u r now s0 else (s0, False))
                 in if threw then destroy c WriteError s1
                    else text_block c u msg now s1)))"

text \<open>
  The \<open>end\<close>, \<open>cancelled\<close> and \<open>error\<close> handlers are the same: \<open>leaveRoom()\<close>, then
  \<open>call.end()\<close> with its exception dropped, which touches nothing of this state.
\<close>

definition on_end :: "conn \<Rightarrow> nat \<Rightarrow> chat_state \<Rightarrow> chat_state" where
  "on_end c now s = leaveRoom c now s"

text \<open>
  The states of the chat service: no room, every closure with \<open>joinedRoom = null\<close> and
  \<open>user = null\<close>, nothing written; then any sequence of handler runs.
\<close>

inductive chat_reachable :: "chat_ext \<Rightarrow> chat_state \<Rightarrow> bool" for X :: chat_ext where
  c_init: "chat_reachable X
     \<lparr>rooms = Map.empty, streams = (\<lambda>c. \<lparr>joinedRoom = None, suser = None\<rparr>),
      cnet = \<lparr>wfails = F, wlog = []\<rparr>, destroyed = []\<rparr>"
| c_data: "chat_reachable X s \<Longrightarrow> chat_reachable X (on_data X c msg now s)"
| c_end: "chat_reachable X s \<Longrightarrow> chat_reachable X (on_end c now s)"
section \<open>Notions used in the statements\<close>

text \<open>
  The payload that the body of the loop of \<open>notifyStreams\<close> writes for one session, if
  any; \<open>notify_one_payload\<close> below proves that this is what \<open>notify_one\<close> does.
\<close>

definition session_payload ::
  "(task \<Rightarrow> 'pb) \<Rightarrow> string \<Rightarrow> task \<Rightarrow> nat \<Rightarrow> session \<Rightarrow> 'pb payload option" where
  "session_payload tp action t now se =
     (if userId se = t_userId t then
        (if stype se = Some ''notifications'' then
           Some (Envelope \<lparr>e_type = notificationTypeMap action,
                        e_task = Some (tp t),
                        e_message = ''Tarefa '' @ replace_first (CHR ''_'') (CHR '' '') (toLowerCase action),
                        e_timestamp = now\<rparr>)
         else
           (case sfilter se of
              None \<Rightarrow> None
            | Some completed \<Rightarrow>
                (if (completed = JUndefined \<or> completed = JBool (t_completed t))
                    \<and> action \<noteq> ''TASK_DELETED''
                 then Some (TaskPb (tp t)) else None)))
      else None)"

definition session_writes ::
  "(task \<Rightarrow> 'pb) \<Rightarrow> string \<Rightarrow> task \<Rightarrow> nat \<Rightarrow> string \<times> session \<Rightarrow> (conn \<times> 'pb payload) list" where
  "session_writes tp a t now e =
     (case session_payload tp a t now (snd e) of None \<Rightarrow> [] | Some p \<Rightarrow> [(call (snd e), p)])"

text \<open>The writes of a step: what the log of \<open>t'\<close> holds beyond the log of \<open>t\<close>.\<close>

definition new_writes :: "'p transport \<Rightarrow> 'p transport \<Rightarrow> (conn \<times> 'p) list" where
  "new_writes t t' = drop (length (wlog t)) (wlog t')"

text \<open>A payload that is not an envelope of a type other than 0, 1 and 2.\<close>

definition typed_ok :: "'pb payload \<Rightarrow> bool" where
  "typed_ok p = (case p of TaskPb x \<Rightarrow> True | Envelope e \<Rightarrow> e_type e \<in> {Some 0, Some 1, Some 2})"

text \<open>
  The invariant of the room registry: every room that is a key has a member, its members
  are listed once, and a closure whose \<open>joinedRoom\<close> is set is a member of that room.
\<close>

definition chat_inv :: "chat_state \<Rightarrow> bool" where
  "chat_inv s =
     ((\<forall>r ms. rooms s r = Some ms \<longrightarrow> ms \<noteq> [] \<and> distinct ms) \<and>
      (\<forall>c r. joinedRoom (streams s c) = Some r \<longrightarrow>
               r \<noteq> [] \<and> (\<exists>ms. rooms s r = Some ms \<and> c \<in> set ms)))"

section \<open>Example runs\<close>

text \<open>
  Two users and their tokens; a registry with a task stream of \<open>U1\<close> filtered on
  \<open>completed = false\<close>, an unfiltered task stream of \<open>U2\<close>, and a notification stream of
  \<open>U1\<close> whose connection is broken.
\<close>

definition ana :: user where
  "ana = \<lparr>u_id = ''U1'', u_username = ''ana''\<rparr>"

definition bob :: user where
  "bob = \<lparr>u_id = ''U2'', u_username = ''bob''\<rparr>"

definition ex_verify :: "string \<Rightarrow> user option" where
  "ex_verify tok = (if tok = ''tok1'' then Some ana else if tok = ''tok2'' then Some bob else None)"

definition ex_ext :: "string ext" where
  "ex_ext = \<lparr>jwt_verify = ex_verify, convertFromPriority = (\<lambda>p. if p = 0 then ''low'' else ''medium''),
             task_valid = (\<lambda>t. True), toProtobuf = t_title\<rparr>"

definition ex_task :: task where
  "ex_task = \<lparr>t_id = ''T1'', t_title = ''write report'', t_description = [],
              t_priority = ''medium'', t_userId = ''U1'', t_completed = False\<rparr>"

definition ex_row :: row where
  "ex_row = \<lparr>r_id = ''T1'', r_title = ''write report'', r_description = [],
             r_priority = ''medium'', r_userId = ''U1'', r_completed = 1\<rparr>"

definition ex_tstate :: "string tstate" where
  "ex_tstate =
     \<lparr>streamingSessions =
        [(''s1'', \<lparr>call = 11, userId = ''U1'', stype = None, sfilter = Some (JBool False)\<rparr>),
         (''s2'', \<lparr>call = 12, userId = ''U2'', stype = None, sfilter = Some JUndefined\<rparr>),
         (''s3'', \<lparr>call = 13, userId = ''U1'', stype = Some ''notifications'', sfilter = None\<rparr>)],
      tnet = \<lparr>wfails = (\<lambda>c. c = 13), wlog = []\<rparr>\<rparr>"

definition ex_tinit :: "string tstate" where
  "ex_tinit = \<lparr>streamingSessions = [], tnet = \<lparr>wfails = (\<lambda>c. False), wlog = []\<rparr>\<rparr>"

text \<open>A notification stream is opened, then a task is created and committed.\<close>

definition ex_run :: "string tstate" where
  "ex_run =
     fst (createTask ex_ext ''tok1'' (Some ''Buy milk'') None 2 ''T9'' 6 (Resolved 1)
            (fst (streamNotifications ex_ext 14 ''tok1'' ''s4'' 5 ex_tinit)))"

text \<open>
  A store that holds one completed task of \<open>U1\<close> and answers a query as the \<open>SELECT\<close>
  would; on it, \<open>U1\<close> opens a task stream with \<open>completed = null\<close>, and the same stream
  with \<open>completed\<close> undefined.
\<close>

definition ex_db_all :: "task_query \<Rightarrow> row list dbres" where
  "ex_db_all q =
     Resolved (filter (\<lambda>r. r_userId r = q_userId q \<and>
                            (case q_completed q of None \<Rightarrow> True | Some b \<Rightarrow> (r_completed r = 1) = b))
                      [ex_row])"

definition ex_null_open :: "string tstate" where
  "ex_null_open = fst (streamTasks ex_ext 15 ''tok1'' JNull ex_db_all ''s5'' ex_tinit)"

definition ex_undef_open :: "string tstate" where
  "ex_undef_open = fst (streamTasks ex_ext 15 ''tok1'' JUndefined ex_db_all ''s5'' ex_tinit)"

definition ex_chat_ext :: chat_ext where
  "ex_chat_ext =
     \<lparr>c_verify = ex_verify,
      authorization = (\<lambda>c. if c = 11 then Some ''Bearer tok1'' else if c = 12 then Some ''Bearer tok2'' else None),
      request_token = (\<lambda>c. None)\<rparr>"

definition ex_chat_init :: chat_state where
  "ex_chat_init =
     \<lparr>rooms = Map.empty, streams = (\<lambda>c. \<lparr>joinedRoom = None, suser = None\<rparr>),
      cnet = \<lparr>wfails = (\<lambda>c. False), wlog = []\<rparr>, destroyed = []\<rparr>"

text \<open>Connection 11 joins \<open>general\<close>; then connection 12 joins it too.\<close>

definition ex_alone :: chat_state where
  "ex_alone = on_data ex_chat_ext 11 \<lparr>m_room = ''general'', m_text = []\<rparr> 10 ex_chat_init"

definition ex_joined :: chat_state where
  "ex_joined = on_data ex_chat_ext 12 \<lparr>m_room = ''general'', m_text = []\<rparr> 11 ex_alone"

definition hello :: chat_msg where
  "hello = \<lparr>room = ''general'', mtext = ''hello'', sender_id = ''U1'', sender_name = ''ana'',
            timestamp = 12, mtype = 0\<rparr>"

text \<open>A room of three members; the connection of the second is broken.\<close>

definition ex_room3 :: chat_state where
  "ex_room3 =
     \<lparr>rooms = [''general'' \<mapsto> [11, 12, 13]],
      streams = (\<lambda>c. if c \<in> {11, 12, 13} then \<lparr>joinedRoom = Some ''general'', suser = Some ana\<rparr>
                      else \<lparr>joinedRoom = None, suser = None\<rparr>),
      cnet = \<lparr>wfails = (\<lambda>c. c = 12), wlog = []\<rparr>, destroyed = []\<rparr>"
section \<open>The dispatch loop\<close>

lemma notify_one_payload:
  "notify_one tp a t now sid se s =
     (case session_payload tp a t now se of None \<Rightarrow> s | Some p \<Rightarrow> try_write sid (call se) p s)"
  by (simp add: notify_one_def session_payload_def split: option.splits)

lemma wlog_try_write [simp]: "wlog (tnet (try_write sid c p s)) = wlog (tnet s) @ [(c, p)]"
  by (simp add: try_write_def call_write_def)

lemma wfails_try_write [simp]: "wfails (tnet (try_write sid c p s)) = wfails (tnet s)"
  by (simp add: try_write_def call_write_def)

lemma sessions_try_write:
  "streamingSessions (try_write sid c p s) =
     (if wfails (tnet s) c then AList.delete sid (streamingSessions s) else streamingSessions s)"
  by (simp add: try_write_def call_write_def)

lemma wlog_notify_one:
  "wlog (tnet (notify_one tp a t now sid se s)) = wlog (tnet s) @ session_writes tp a t now (sid, se)"
  by (simp add: notify_one_payload session_writes_def split: option.splits)

lemma wfails_notify_one [simp]:
  "wfails (tnet (notify_one tp a t now sid se s)) = wfails (tnet s)"
  by (simp add: notify_one_payload split: option.splits)

lemma sessions_notify_one:
  "streamingSessions (notify_one tp a t now sid se s) =
     (if session_writes tp a t now (sid, se) \<noteq> [] \<and> wfails (tnet s) (call se)
      then AList.delete sid (streamingSessions s) else streamingSessions s)"
  by (simp add: notify_one_payload session_writes_def sessions_try_write split: option.splits)

lemma wlog_notify_loop:
  "wlog (tnet (notify_loop tp a t now es s)) = wlog (tnet s) @ concat (map (session_writes tp a t now) es)"
  by (induction es arbitrary: s) (auto simp: wlog_notify_one)

lemma wfails_notify_loop [simp]:
  "wfails (tnet (notify_loop tp a t now es s)) = wfails (tnet s)"
  by (induction es arbitrary: s) auto

text \<open>Every session of the snapshot is visited once, whatever fails on the way.\<close>

lemma wlog_notifyStreams:
  "wlog (tnet (notifyStreams tp a t now s)) =
     wlog (tnet s) @ concat (map (session_writes tp a t now) (streamingSessions s))"
  by (simp add: notifyStreams_def wlog_notify_loop)

lemma wfails_notifyStreams [simp]:
  "wfails (tnet (notifyStreams tp a t now s)) = wfails (tnet s)"
  by (simp add: notifyStreams_def)

lemma new_writes_append: "wlog t' = wlog t @ ws \<Longrightarrow> new_writes t t' = ws"
  by (simp add: new_writes_def)

lemma new_writes_notifyStreams:
  "new_writes (tnet s) (tnet (notifyStreams tp a t now s)) =
     concat (map (session_writes tp a t now) (streamingSessions s))"
  by (simp add: new_writes_def wlog_notifyStreams)

lemma fst_session_writes:
  "w \<in> set (session_writes tp a t now e) \<Longrightarrow> fst w = call (snd e)"
  by (auto simp: session_writes_def split: option.splits)

lemma session_writes_other_owner:
  "userId (snd e) \<noteq> t_userId t \<Longrightarrow> session_writes tp a t now e = []"
  by (simp add: session_writes_def session_payload_def)

lemma lower_created: "toLowerCase ''TASK_CREATED'' = ''task_created''"
  by code_simp

lemma lower_deleted: "toLowerCase ''TASK_DELETED'' = ''task_deleted''"
  by code_simp

lemma type_created: "notificationTypeMap ''TASK_CREATED'' = Some 0"
  by (simp add: notificationTypeMap_def)

lemma type_updated: "notificationTypeMap ''TASK_UPDATED'' = Some 1"
  by (simp add: notificationTypeMap_def)

lemma type_deleted: "notificationTypeMap ''TASK_DELETED'' = Some 2"
  by (simp add: notificationTypeMap_def)

lemma concat_map_filter_single:
  "(\<And>x. x \<in> set xs \<Longrightarrow> f x = (if P x then [g x] else [])) \<Longrightarrow>
   concat (map f xs) = map g (filter P xs)"
  by (induction xs) auto

lemma filter_concat_unique:
  assumes "distinct (map fst es)" and "(k, v) \<in> set es"
    and "\<forall>e \<in> set es. fst e \<noteq> k \<longrightarrow> filter Q (f e) = []"
  shows "filter Q (concat (map f es)) = filter Q (f (k, v))"
  using assms
proof (induction es)
  case Nil
  then show ?case by simp
next
  case (Cons e es)
  show ?case
  proof (cases "e = (k, v)")
    case True
    with Cons.prems have "\<forall>x \<in> set es. fst x \<noteq> k" by force
    with Cons.prems have "\<forall>x \<in> set es. filter Q (f x) = []" by simp
    then have "filter Q (concat (map f es)) = []" by (induction es) auto
    with True show ?thesis by simp
  next
    case False
    with Cons.prems have in_es: "(k, v) \<in> set es" by simp
    then have "k \<in> fst ` set es" by force
    with Cons.prems(1) have "fst e \<noteq> k" by auto
    with Cons.prems have "filter Q (f e) = []" by simp
    moreover from Cons.IH Cons.prems in_es
    have "filter Q (concat (map f es)) = filter Q (f (k, v))" by simp
    ultimately show ?thesis by simp
  qed
qed

text \<open>
  When a session is the only one on its connection, the writes of a dispatch to that
  connection are the writes for that session.
\<close>

lemma session_writes_own_call:
  assumes "distinct (map fst (streamingSessions s))" and "(sid, se) \<in> set (streamingSessions s)"
    and "\<forall>e \<in> set (streamingSessions s). call (snd e) = call se \<longrightarrow> fst e = sid"
  shows "filter (\<lambda>w. fst w = call se) (new_writes (tnet s) (tnet (notifyStreams tp a t now s))) =
           session_writes tp a t now (sid, se)"
proof -
  have other: "\<forall>e \<in> set (streamingSessions s). fst e \<noteq> sid \<longrightarrow>
                 filter (\<lambda>w. fst w = call se) (session_writes tp a t now e) = []"
    using assms(3) by (auto simp: filter_empty_conv dest!: fst_session_writes)
  have own: "filter (\<lambda>w. fst w = call se) (session_writes tp a t now (sid, se)) =
               session_writes tp a t now (sid, se)"
    by (auto simp: filter_id_conv dest!: fst_session_writes)
  show ?thesis
    unfolding new_writes_notifyStreams
    using filter_concat_unique [OF assms(1) assms(2) other] own by simp
qed

lemma unique_call:
  assumes "distinct (map (call \<circ> snd) es)" and "(sid, se) \<in> set es"
  shows "\<forall>e \<in> set es. call (snd e) = call se \<longrightarrow> fst e = sid"
proof (intro ballI impI)
  fix e assume e: "e \<in> set es" "call (snd e) = call se"
  from assms(1) have "inj_on (call \<circ> snd) (set es)" by (simp add: distinct_map)
  with e assms(2) have "e = (sid, se)"
    using inj_onD [of "call \<circ> snd" "set es" e "(sid, se)"] by simp
  then show "fst e = sid" by simp
qed

lemma received_notifyStreams:
  assumes "distinct (map fst (streamingSessions ts))" and "distinct (map (call \<circ> snd) (streamingSessions ts))"
    and "(sid, se) \<in> set (streamingSessions ts)" and "\<not> wfails (tnet ts) (call se)"
  shows "received (tnet (notifyStreams tp a t now ts)) (call se) =
           received (tnet ts) (call se) @ map snd (session_writes tp a t now (sid, se))"
proof -
  have "filter (\<lambda>w. fst w = call se) (new_writes (tnet ts) (tnet (notifyStreams tp a t now ts))) =
          session_writes tp a t now (sid, se)"
    using assms(1) assms(3) unique_call [OF assms(2) assms(3)] by (rule session_writes_own_call)
  then show ?thesis
    using assms(4) by (simp add: received_def wlog_notifyStreams new_writes_notifyStreams)
qed

text \<open>The sessions that a dispatch removes: those whose write was tried and threw.\<close>

lemma sessions_notify_loop:
  "streamingSessions (notify_loop tp a t now es s) =
     filter (\<lambda>e. \<not> (\<exists>x \<in> set es. fst x = fst e \<and> session_writes tp a t now x \<noteq> [] \<and> wfails (tnet s) (call (snd x))))
       (streamingSessions s)"
proof (induction es arbitrary: s)
  case Nil
  then show ?case by simp
next
  case (Cons x es)
  obtain sid se where x: "x = (sid, se)" by (cases x)
  show ?case
    unfolding x notify_loop.simps Cons.IH
    by (auto simp: sessions_notify_one AList.delete_eq intro!: filter_cong)
qed

lemma sessions_notifyStreams:
  assumes "distinct (map fst (streamingSessions s))"
  shows "streamingSessions (notifyStreams tp a t now s) =
     filter (\<lambda>e. \<not> (session_writes tp a t now e \<noteq> [] \<and> wfails (tnet s) (call (snd e))))
       (streamingSessions s)"
  unfolding notifyStreams_def sessions_notify_loop
proof (rule filter_cong [OF refl])
  fix e assume e: "e \<in> set (streamingSessions s)"
  have same: "x = e" if "x \<in> set (streamingSessions s)" "fst x = fst e" for x
    using that e assms by (metis eq_key_imp_eq_value prod.collapse)
  show "(\<not> (\<exists>x \<in> set (streamingSessions s). fst x = fst e \<and> session_writes tp a t now x \<noteq> [] \<and> wfails (tnet s) (call (snd x))))
      = (\<not> (session_writes tp a t now e \<noteq> [] \<and> wfails (tnet s) (call (snd e))))"
    using e same by blast
qed

lemma delete_as_filter:
  assumes "distinct (map fst es)" and "(k, v) \<in> set es"
  shows "AList.delete k es = filter (\<lambda>e. e \<noteq> (k, v)) es"
  unfolding AList.delete_eq
proof (rule filter_cong [OF refl])
  fix e assume "e \<in> set es"
  with assms show "(case e of (k', uu) \<Rightarrow> k \<noteq> k') = (e \<noteq> (k, v))"
    by (cases e) (auto dest: eq_key_imp_eq_value)
qed

section \<open>The handlers of TaskService and the dispatcher\<close>

lemma createTask_cases:
  "\<exists>t. fst (createTask X token title description priority uuid now run s) = s
      \<or> fst (createTask X token title description priority uuid now run s) =
          notifyStreams (toProtobuf X) ''TASK_CREATED'' t now s"
  by (auto simp: createTask_def Let_def split: sum.splits dbres.splits option.splits)

lemma updateTask_cases:
  "\<exists>t. fst (updateTask X token title description completed priority existing run updated now s) = s
      \<or> fst (updateTask X token title description completed priority existing run updated now s) =
          notifyStreams (toProtobuf X) ''TASK_UPDATED'' t now s"
  by (auto simp: updateTask_def Let_def split: sum.splits dbres.splits option.splits)

lemma deleteTask_cases:
  "\<exists>t. fst (deleteTask X token existing run now s) = s
      \<or> fst (deleteTask X token existing run now s) =
          notifyStreams (toProtobuf X) ''TASK_DELETED'' t now s"
  by (auto simp: deleteTask_def Let_def split: sum.splits dbres.splits option.splits)

lemma typed_ok_session_writes:
  assumes "notificationTypeMap a \<in> {Some 0, Some 1, Some 2}"
  shows "list_all (\<lambda>w. typed_ok (snd w)) (session_writes tp a t now e)"
  using assms
  by (simp add: session_writes_def session_payload_def typed_ok_def split: option.splits)

lemma typed_ok_notify_loop:
  assumes "notificationTypeMap a \<in> {Some 0, Some 1, Some 2}"
  shows "list_all (\<lambda>w. typed_ok (snd w)) (wlog (tnet s)) \<Longrightarrow>
         list_all (\<lambda>w. typed_ok (snd w)) (wlog (tnet (notify_loop tp a t now es s)))"
proof (induction es arbitrary: s)
  case Nil
  then show ?case by simp
next
  case (Cons x es)
  obtain sid se where x: "x = (sid, se)" by (cases x)
  have "list_all (\<lambda>w. typed_ok (snd w)) (wlog (tnet (notify_one tp a t now sid se s)))"
    using Cons.prems typed_ok_session_writes [OF assms] by (simp add: wlog_notify_one)
  then show ?case unfolding x notify_loop.simps by (rule Cons.IH)
qed

lemma typed_ok_notifyStreams:
  assumes "notificationTypeMap a \<in> {Some 0, Some 1, Some 2}"
    and "list_all (\<lambda>w. typed_ok (snd w)) (wlog (tnet s))"
  shows "list_all (\<lambda>w. typed_ok (snd w)) (wlog (tnet (notifyStreams tp a t now s)))"
  unfolding notifyStreams_def using assms by (rule typed_ok_notify_loop)

lemma typed_ok_write_rows:
  "list_all (\<lambda>w. typed_ok (snd w)) (wlog t) \<Longrightarrow>
   list_all (\<lambda>w. typed_ok (snd w)) (wlog (fst (write_rows tp c rs t)))"
proof (induction rs arbitrary: t)
  case Nil
  then show ?case by simp
next
  case (Cons r rs)
  let ?t' = "t\<lparr>wlog := wlog t @ [(c, TaskPb (tp (task_of_row r)))]\<rparr>"
  have "list_all (\<lambda>w. typed_ok (snd w)) (wlog ?t')"
    using Cons.prems by (simp add: typed_ok_def)
  then have "list_all (\<lambda>w. typed_ok (snd w)) (wlog (fst (write_rows tp c rs ?t')))"
    by (rule Cons.IH)
  moreover have "list_all (\<lambda>w. typed_ok (snd w)) (wlog ?t')" by fact
  ultimately show ?case by (simp add: call_write_def)
qed

lemma typed_ok_streamTasks:
  assumes "list_all (\<lambda>w. typed_ok (snd w)) (wlog (tnet s))"
  shows "list_all (\<lambda>w. typed_ok (snd w)) (wlog (tnet (fst (streamTasks X c token completed db_all uuid s))))"
proof -
  have w: "list_all (\<lambda>w. typed_ok (snd w)) (wlog (fst (write_rows (toProtobuf X) c rs (tnet s))))" for rs
    using assms by (rule typed_ok_write_rows)
  show ?thesis
  proof (cases "task_validateToken X token")
    case (Inl e)
    with assms show ?thesis by (simp add: streamTasks_def)
  next
    case (Inr u)
    show ?thesis
    proof (cases "db_all (stream_query (u_id u) completed)")
      case (Rejected m)
      with Inr assms show ?thesis by (simp add: streamTasks_def)
    next
      case (Resolved rs)
      obtain t' b where wr: "write_rows (toProtobuf X) c rs (tnet s) = (t', b)"
        by (cases "write_rows (toProtobuf X) c rs (tnet s)")
      with w [of rs] have "list_all (\<lambda>w. typed_ok (snd w)) (wlog t')" by simp
      with Inr Resolved wr show ?thesis by (simp add: streamTasks_def)
    qed
  qed
qed

lemma typed_ok_streamNotifications:
  assumes "list_all (\<lambda>w. typed_ok (snd w)) (wlog (tnet s))"
  shows "list_all (\<lambda>w. typed_ok (snd w)) (wlog (tnet (fst (streamNotifications X c token uuid now s))))"
proof (cases "task_validateToken X token")
  case (Inl e)
  with assms show ?thesis by (simp add: streamNotifications_def)
next
  case (Inr u)
  with assms show ?thesis
    by (simp add: streamNotifications_def Let_def call_write_def typed_ok_def initial_envelope_def)
qed

lemma task_reachable_typed_ok:
  "task_reachable X s \<Longrightarrow> list_all (\<lambda>w. typed_ok (snd w)) (wlog (tnet s))"
proof (induction rule: task_reachable.induct)
  case (t_init F)
  show ?case by simp
next
  case (t_create s token title description priority uuid now run)
  obtain t where "fst (createTask X token title description priority uuid now run s) = s
      \<or> fst (createTask X token title description priority uuid now run s) =
          notifyStreams (toProtobuf X) ''TASK_CREATED'' t now s"
    using createTask_cases by blast
  then show ?case
  proof
    assume "fst (createTask X token title description priority uuid now run s) = s"
    with t_create.IH show ?thesis by simp
  next
    assume e: "fst (createTask X token title description priority uuid now run s) =
          notifyStreams (toProtobuf X) ''TASK_CREATED'' t now s"
    show ?thesis unfolding e
      by (rule typed_ok_notifyStreams) (simp_all add: type_created t_create.IH)
  qed
next
  case (t_update s token title description completed priority existing run updated now)
  obtain t where "fst (updateTask X token title description completed priority existing run updated now s) = s
      \<or> fst (updateTask X token title description completed priority existing run updated now s) =
          notifyStreams (toProtobuf X) ''TASK_UPDATED'' t now s"
    using updateTask_cases by blast
  then show ?case
  proof
    assume "fst (updateTask X token title description completed priority existing run updated now s) = s"
    with t_update.IH show ?thesis by simp
  next
    assume e: "fst (updateTask X token title description completed priority existing run updated now s) =
          notifyStreams (toProtobuf X) ''TASK_UPDATED'' t now s"
    show ?thesis unfolding e
      by (rule typed_ok_notifyStreams) (simp_all add: type_updated t_update.IH)
  qed
next
  case (t_delete s token existing run now)
  obtain t where "fst (deleteTask X token existing run now s) = s
      \<or> fst (deleteTask X token existing run now s) =
          notifyStreams (toProtobuf X) ''TASK_DELETED'' t now s"
    using deleteTask_cases by blast
  then show ?case
  proof
    assume "fst (deleteTask X token existing run now s) = s"
    with t_delete.IH show ?thesis by simp
  next
    assume e: "fst (deleteTask X token existing run now s) =
          notifyStreams (toProtobuf X) ''TASK_DELETED'' t now s"
    show ?thesis unfolding e
      by (rule typed_ok_notifyStreams) (simp_all add: type_deleted t_delete.IH)
  qed
next
  case (t_streamTasks s c token completed db_all uuid)
  then show ?case by (intro typed_ok_streamTasks)
next
  case (t_streamNotifications s c token uuid now)
  then show ?case by (intro typed_ok_streamNotifications)
next
  case (t_cancelled s sessionId)
  then show ?case by (simp add: on_cancelled_def)
qed
section \<open>The room registry\<close>

lemma wlog_broadcast_loop:
  "wlog (broadcast_loop cs m ex t) = wlog t @ map (\<lambda>c. (c, m)) (filter (\<lambda>c. Some c \<noteq> ex) cs)"
  by (induction cs arbitrary: t) (auto simp: call_write_def)

lemma wfails_broadcast_loop [simp]: "wfails (broadcast_loop cs m ex t) = wfails t"
  by (induction cs arbitrary: t) (auto simp: call_write_def)

lemma rooms_broadcast [simp]: "rooms (broadcast r m ex s) = rooms s"
  by (simp add: broadcast_def split: option.splits)

lemma streams_broadcast [simp]: "streams (broadcast r m ex s) = streams s"
  by (simp add: broadcast_def split: option.splits)

lemma destroyed_broadcast [simp]: "destroyed (broadcast r m ex s) = destroyed s"
  by (simp add: broadcast_def split: option.splits)

lemma wfails_broadcast [simp]: "wfails (cnet (broadcast r m ex s)) = wfails (cnet s)"
  by (simp add: broadcast_def split: option.splits)

lemma wlog_broadcast:
  "wlog (cnet (broadcast r m ex s)) =
     wlog (cnet s) @ map (\<lambda>c. (c, m)) (filter (\<lambda>c. Some c \<noteq> ex) (case rooms s r of None \<Rightarrow> [] | Some ms \<Rightarrow> ms))"
  by (simp add: broadcast_def wlog_broadcast_loop split: option.splits)

lemma rooms_destroy [simp]: "rooms (destroy c e s) = rooms s"
  by (simp add: destroy_def)

lemma streams_destroy [simp]: "streams (destroy c e s) = streams s"
  by (simp add: destroy_def)

lemma cnet_destroy [simp]: "cnet (destroy c e s) = cnet s"
  by (simp add: destroy_def)

lemma rooms_text_block [simp]: "rooms (text_block c u msg now s) = rooms s"
  by (simp add: text_block_def split: option.splits)

lemma streams_text_block [simp]: "streams (text_block c u msg now s) = streams s"
  by (simp add: text_block_def split: option.splits)

lemma rooms_join_block:
  "rooms (fst (join_block c u r now s)) =
     (rooms s)(r \<mapsto> set_add c (case rooms s r of None \<Rightarrow> [] | Some ms \<Rightarrow> ms))"
  by (auto simp: join_block_def ensureRoom_def Let_def split: prod.splits option.splits)

lemma streams_join_block:
  "streams (fst (join_block c u r now s)) = (streams s)(c := (streams s c)\<lparr>joinedRoom := Some r\<rparr>)"
  by (auto simp: join_block_def ensureRoom_def Let_def split: prod.splits)

lemma set_set_add [simp]: "set (set_add c ms) = insert c (set ms)"
  by (auto simp: set_add_def)

lemma distinct_set_add [simp]: "distinct (set_add c ms) = distinct ms"
  by (auto simp: set_add_def)

lemma set_add_not_Nil [simp]: "set_add c ms \<noteq> []"
  by (auto simp: set_add_def)

lemma chat_inv_join_block:
  assumes "chat_inv s" and "r \<noteq> []"
  shows "chat_inv (fst (join_block c u r now s))"
proof -
  have good: "ms \<noteq> [] \<and> distinct ms" if "rooms s r' = Some ms" for r' ms
    using assms(1) that unfolding chat_inv_def by blast
  have other: "r' \<noteq> [] \<and> (\<exists>ms'. rooms s r' = Some ms' \<and> c' \<in> set ms')"
    if "joinedRoom (streams s c') = Some r'" for c' r'
    using assms(1) that unfolding chat_inv_def by blast
  show ?thesis
    unfolding chat_inv_def rooms_join_block streams_join_block
  proof (intro conjI allI impI)
    fix r' ms assume "((rooms s)(r \<mapsto> set_add c (case rooms s r of None \<Rightarrow> [] | Some ms \<Rightarrow> ms))) r' = Some ms"
    then show "ms \<noteq> []" "distinct ms"
      using good by (auto split: if_splits option.splits)
  next
    fix c' r'
    assume j: "joinedRoom (((streams s)(c := (streams s c)\<lparr>joinedRoom := Some r\<rparr>)) c') = Some r'"
    then show "r' \<noteq> []" using other assms(2) by (auto split: if_splits)
    show "\<exists>ms. ((rooms s)(r \<mapsto> set_add c (case rooms s r of None \<Rightarrow> [] | Some ms \<Rightarrow> ms))) r' = Some ms \<and> c' \<in> set ms"
    proof (cases "c' = c")
      case True
      with j show ?thesis by simp
    next
      case False
      with j have "joinedRoom (streams s c') = Some r'" by simp
      from other [OF this] obtain ms' where "rooms s r' = Some ms'" "c' \<in> set ms'" by blast
      then show ?thesis by (cases "r' = r") auto
    qed
  qed
qed

lemma set_set_delete [simp]: "set (set_delete c ms) = set ms - {c}"
  by (simp add: set_delete_def)

lemma distinct_set_delete [simp]: "distinct ms \<Longrightarrow> distinct (set_delete c ms)"
  by (simp add: set_delete_def distinct_removeAll)

lemma rooms_leaveRoom:
  "rooms (leaveRoom c now s) =
     (case joinedRoom (streams s c) of
        None \<Rightarrow> rooms s
      | Some r \<Rightarrow>
          (case (if r = [] then None else rooms s r) of
             None \<Rightarrow> rooms s
           | Some ms \<Rightarrow> if set_delete c ms = [] then (rooms s)(r := None)
                        else (rooms s)(r \<mapsto> set_delete c ms)))"
  by (simp add: leaveRoom_def Let_def split: option.splits)

lemma streams_leaveRoom:
  "streams (leaveRoom c now s) = (streams s)(c := (streams s c)\<lparr>joinedRoom := None\<rparr>)"
  by (simp add: leaveRoom_def Let_def split: option.splits)

lemma chat_inv_leaveRoom:
  assumes "chat_inv s"
  shows "chat_inv (leaveRoom c now s)"
proof -
  have good: "ms \<noteq> [] \<and> distinct ms" if "rooms s r' = Some ms" for r' ms
    using assms that unfolding chat_inv_def by blast
  have other: "r' \<noteq> [] \<and> (\<exists>ms'. rooms s r' = Some ms' \<and> c' \<in> set ms')"
    if "joinedRoom (streams s c') = Some r'" for c' r'
    using assms that unfolding chat_inv_def by blast
  show ?thesis
  proof (cases "joinedRoom (streams s c)")
    case None
    then have "rooms (leaveRoom c now s) = rooms s"
      by (simp add: rooms_leaveRoom)
    moreover from None have "joinedRoom (streams (leaveRoom c now s) c') = joinedRoom (streams s c')" for c'
      by (simp add: streams_leaveRoom)
    ultimately show ?thesis using assms by (simp add: chat_inv_def)
  next
    case (Some r)
    from other [OF Some] obtain ms where ms: "r \<noteq> []" "rooms s r = Some ms" "c \<in> set ms"
      by blast
    have dms: "distinct ms" using good ms(2) by blast
    have rooms': "rooms (leaveRoom c now s) =
        (if set_delete c ms = [] then (rooms s)(r := None) else (rooms s)(r \<mapsto> set_delete c ms))"
      using Some ms by (simp add: rooms_leaveRoom)
    show ?thesis
      unfolding chat_inv_def
    proof (intro conjI allI impI)
      fix r' ms' assume "rooms (leaveRoom c now s) r' = Some ms'"
      then show "ms' \<noteq> []" "distinct ms'"
        using good dms unfolding rooms' by (auto split: if_splits)
    next
      fix c' r' assume j: "joinedRoom (streams (leaveRoom c now s) c') = Some r'"
      then have c': "c' \<noteq> c" and j': "joinedRoom (streams s c') = Some r'"
        by (auto simp: streams_leaveRoom split: if_splits)
      from other [OF j'] obtain ms' where ms': "r' \<noteq> []" "rooms s r' = Some ms'" "c' \<in> set ms'"
        by blast
      show "r' \<noteq> []" by fact
      show "\<exists>ms. rooms (leaveRoom c now s) r' = Some ms \<and> c' \<in> set ms"
      proof (cases "r' = r")
        case True
        with ms ms' c' have "c' \<in> set (set_delete c ms)" by simp
        moreover from this have "set_delete c ms \<noteq> []" by (metis empty_iff empty_set)
        ultimately show ?thesis unfolding rooms' using True by simp
      next
        case False
        with ms' show ?thesis unfolding rooms' by simp
      qed
    qed
  qed
qed

lemma chat_inv_destroy [simp]: "chat_inv (destroy c e s) = chat_inv s"
  by (simp add: chat_inv_def)

lemma chat_inv_text_block [simp]: "chat_inv (text_block c u msg now s) = chat_inv s"
  by (simp add: chat_inv_def)

lemma chat_inv_suser [simp]:
  "chat_inv (s\<lparr>streams := (streams s)(c := (streams s c)\<lparr>suser := v\<rparr>)\<rparr>) = chat_inv s"
  by (auto simp: chat_inv_def)

lemma chat_inv_on_data:
  assumes "chat_inv s"
  shows "chat_inv (on_data X c msg now s)"
proof -
  have j: "chat_inv s1"
    if "join_block c u r now (s\<lparr>streams := (streams s)(c := (streams s c)\<lparr>suser := Some u\<rparr>)\<rparr>) = (s1, b)"
      and "r \<noteq> []" for u r s1 b
  proof -
    have "chat_inv (fst (join_block c u r now (s\<lparr>streams := (streams s)(c := (streams s c)\<lparr>suser := Some u\<rparr>)\<rparr>)))"
      using assms that(2) by (intro chat_inv_join_block) simp_all
    with that(1) show ?thesis by simp
  qed
  show ?thesis
    unfolding on_data_def Let_def
    using assms j by (auto split: sum.splits prod.splits option.splits if_splits)
qed

lemma chat_inv_init:
  "chat_inv \<lparr>rooms = Map.empty, streams = (\<lambda>c. \<lparr>joinedRoom = None, suser = None\<rparr>),
             cnet = \<lparr>wfails = F, wlog = []\<rparr>, destroyed = []\<rparr>"
  by (simp add: chat_inv_def)

lemma chat_reachable_inv: "chat_reachable X s \<Longrightarrow> chat_inv s"
  by (induction rule: chat_reachable.induct)
     (simp_all add: chat_inv_init chat_inv_on_data on_end_def chat_inv_leaveRoom)

lemma trim_Nil [simp]: "trim [] = []"
  by (simp add: trim_def)

lemma on_data_joined:
  assumes "joinedRoom (streams s c) = Some r" and "r \<noteq> []" and "suser (streams s c) = Some u"
    and "trim (m_room msg) \<noteq> []"
  shows "on_data X c msg now s = text_block c u msg now s"
proof -
  have "(streams s)(c := (streams s c)\<lparr>suser := Some u\<rparr>) = streams s"
    using assms(3) by (cases "streams s c") (auto simp: fun_eq_iff)
  then show ?thesis
    using assms by (simp add: on_data_def falsy_def)
qed

lemma on_data_blank_room:
  assumes "suser (streams s c) = Some u" and "trim (m_room msg) = []"
  shows "on_data X c msg now s =
           destroy c (InvalidArgument (''room '' @ [CHR 0xE9] @ '' obrigat'' @ [CHR 0xF3] @ ''rio'')) s"
proof -
  have "(streams s)(c := (streams s c)\<lparr>suser := Some u\<rparr>) = streams s"
    using assms(1) by (cases "streams s c") (auto simp: fun_eq_iff)
  then show ?thesis
    using assms by (simp add: on_data_def)
qed

lemma stream_joined_None: "joinedRoom st = None \<Longrightarrow> st\<lparr>joinedRoom := None\<rparr> = st"
  by (cases st) simp

lemma leaveRoom_unjoined:
  assumes "joinedRoom (streams s c) = None"
  shows "leaveRoom c now s = s"
proof -
  have "(streams s)(c := (streams s c)\<lparr>joinedRoom := None\<rparr>) = streams s"
    using assms by (simp add: stream_joined_None)
  with assms show ?thesis by (simp add: leaveRoom_def)
qed

lemma leaveRoom_twice: "leaveRoom c now' (leaveRoom c now s) = leaveRoom c now s"
  by (rule leaveRoom_unjoined) (simp add: streams_leaveRoom)

lemma on_data_join_rooms:
  assumes "joinedRoom (streams s c) = None" and "trim (m_room msg) \<noteq> []"
    and "suser (streams s c) = Some u \<or> (suser (streams s c) = None \<and> chat_validateToken X c = Inr u)"
  shows "rooms (on_data X c msg now s) =
           (rooms s)(trim (m_room msg) \<mapsto>
              set_add c (case rooms s (trim (m_room msg)) of None \<Rightarrow> [] | Some ms \<Rightarrow> ms))"
proof -
  let ?s0 = "s\<lparr>streams := (streams s)(c := (streams s c)\<lparr>suser := Some u\<rparr>)\<rparr>"
  have r: "rooms (fst (join_block c u (trim (m_room msg)) now ?s0)) =
           (rooms s)(trim (m_room msg) \<mapsto>
              set_add c (case rooms s (trim (m_room msg)) of None \<Rightarrow> [] | Some ms \<Rightarrow> ms))"
    by (simp add: rooms_join_block)
  obtain s1 b where j: "join_block c u (trim (m_room msg)) now ?s0 = (s1, b)"
    by (cases "join_block c u (trim (m_room msg)) now ?s0")
  with r have "rooms s1 = (rooms s)(trim (m_room msg) \<mapsto>
              set_add c (case rooms s (trim (m_room msg)) of None \<Rightarrow> [] | Some ms \<Rightarrow> ms))"
    by simp
  then show ?thesis
    using assms j by (auto simp: on_data_def falsy_def Let_def)
qed

lemma on_end_last_member:
  assumes "joinedRoom (streams s c) = Some r" and "r \<noteq> []" and "rooms s r = Some [c]"
  shows "rooms (on_end c now s) = (rooms s)(r := None)"
  using assms by (simp add: on_end_def rooms_leaveRoom set_delete_def)

lemma filter_map_pair_member:
  "distinct xs \<Longrightarrow> c \<in> set xs \<Longrightarrow> filter (\<lambda>w. fst w = c) (map (\<lambda>d. (d, m)) xs) = [(c, m)]"
proof (induction xs)
  case Nil
  then show ?case by simp
next
  case (Cons x xs)
  have none: "c \<notin> set ys \<Longrightarrow> filter (\<lambda>w. fst w = c) (map (\<lambda>d. (d, m)) ys) = []" for ys
    by (induction ys) auto
  from Cons show ?case by (cases "x = c") (auto simp: none)
qed

lemma received_broadcast:
  assumes "rooms s r = Some members" and "distinct members" and "c \<in> set members"
    and "Some c \<noteq> ex" and "\<not> wfails (cnet s) c"
  shows "received (cnet (broadcast r m ex s)) c = received (cnet s) c @ [m]"
proof -
  have "distinct (filter (\<lambda>c. Some c \<noteq> ex) members)" "c \<in> set (filter (\<lambda>c. Some c \<noteq> ex) members)"
    using assms by auto
  then have "filter (\<lambda>w. fst w = c) (map (\<lambda>d. (d, m)) (filter (\<lambda>c. Some c \<noteq> ex) members)) = [(c, m)]"
    by (rule filter_map_pair_member)
  with assms show ?thesis
    by (simp add: received_def wlog_broadcast)
qed
section \<open>Chat: a text message in the joined state\<close>

lemma trim_general: "trim ''general'' = ''general''"
  by code_simp

lemma trim_hello: "trim '' hello '' = ''hello''"
  by code_simp

lemma trim_blank: "trim ''  '' = []"
  by code_simp

lemma ex_joined_reachable: "chat_reachable ex_chat_ext ex_joined"
  unfolding ex_joined_def ex_alone_def ex_chat_init_def by (intro chat_reachable.intros)

lemma ex_alone_reachable: "chat_reachable ex_chat_ext ex_alone"
  unfolding ex_alone_def ex_chat_init_def by (intro chat_reachable.intros)

text \<open>
  C1, as the source has it. In the joined state (the closure holds a user and a joined
  room), in a state the service can reach, a message whose \<open>room\<close> and \<open>text\<close> are both
  non-empty after trimming is written once to every member of the joined room, as a
  message of type 0 with the trimmed text and the sender's id and name. The sender is a
  member and gets its copy: every call of \<open>_broadcast\<close> passes \<open>null\<close> as the call to
  leave out. A message whose \<open>room\<close> is blank after trimming is rejected: the call is
  destroyed with the error \<open>room e obrigatorio\<close> (with its accents), nothing is written,
  and nothing else of the state changes.
\<close>

theorem text_broadcast_to_all_members:
  assumes "chat_reachable X s" and "joinedRoom (streams s c) = Some r"
    and "suser (streams s c) = Some u"
  shows "(trim (m_room msg) \<noteq> [] \<and> trim (m_text msg) \<noteq> [] \<longrightarrow>
            (\<exists>members. rooms s r = Some members \<and> distinct members \<and> c \<in> set members \<and>
               new_writes (cnet s) (cnet (on_data X c msg now s)) =
                 map (\<lambda>d. (d, \<lparr>room = r, mtext = trim (m_text msg), sender_id = u_id u,
                                sender_name = u_username u, timestamp = now, mtype = 0\<rparr>)) members \<and>
               rooms (on_data X c msg now s) = rooms s))
       \<and> (trim (m_room msg) = [] \<longrightarrow>
            new_writes (cnet s) (cnet (on_data X c msg now s)) = [] \<and>
            on_data X c msg now s =
              s\<lparr>destroyed := destroyed s @
                 [(c, InvalidArgument (''room '' @ [CHR 0xE9] @ '' obrigat'' @ [CHR 0xF3] @ ''rio''))]\<rparr>)"
proof (intro conjI impI)
  assume ne: "trim (m_room msg) \<noteq> [] \<and> trim (m_text msg) \<noteq> []"
  from assms(1) have inv: "chat_inv s" by (rule chat_reachable_inv)
  with assms(2) obtain members where m: "r \<noteq> []" "rooms s r = Some members" "c \<in> set members"
    unfolding chat_inv_def by blast
  from inv m(2) have d: "distinct members" unfolding chat_inv_def by blast
  from ne have t: "m_text msg \<noteq> []" by auto
  have eq: "on_data X c msg now s = text_block c u msg now s"
    using assms(2,3) m(1) ne by (simp add: on_data_joined)
  have "wlog (cnet (on_data X c msg now s)) = wlog (cnet s) @
          map (\<lambda>d. (d, \<lparr>room = r, mtext = trim (m_text msg), sender_id = u_id u,
                         sender_name = u_username u, timestamp = now, mtype = 0\<rparr>)) members"
    unfolding eq using assms(2) ne t m(2) by (simp add: text_block_def wlog_broadcast)
  then have "new_writes (cnet s) (cnet (on_data X c msg now s)) =
          map (\<lambda>d. (d, \<lparr>room = r, mtext = trim (m_text msg), sender_id = u_id u,
                         sender_name = u_username u, timestamp = now, mtype = 0\<rparr>)) members"
    by (rule new_writes_append)
  moreover have "rooms (on_data X c msg now s) = rooms s"
    unfolding eq by simp
  ultimately show "\<exists>members. rooms s r = Some members \<and> distinct members \<and> c \<in> set members \<and>
               new_writes (cnet s) (cnet (on_data X c msg now s)) =
                 map (\<lambda>d. (d, \<lparr>room = r, mtext = trim (m_text msg), sender_id = u_id u,
                                sender_name = u_username u, timestamp = now, mtype = 0\<rparr>)) members \<and>
               rooms (on_data X c msg now s) = rooms s"
    using m d by blast
next
  assume "trim (m_room msg) = []"
  with assms(3) have blank: "on_data X c msg now s =
      destroy c (InvalidArgument (''room '' @ [CHR 0xE9] @ '' obrigat'' @ [CHR 0xF3] @ ''rio'')) s"
    by (rule on_data_blank_room)
  show "new_writes (cnet s) (cnet (on_data X c msg now s)) = []"
    unfolding blank by (simp add: new_writes_def)
  show "on_data X c msg now s =
          s\<lparr>destroyed := destroyed s @
             [(c, InvalidArgument (''room '' @ [CHR 0xE9] @ '' obrigat'' @ [CHR 0xF3] @ ''rio''))]\<rparr>"
    unfolding blank by (simp add: destroy_def)
qed

theorem text_broadcast_to_all_members_witness:
  "chat_reachable ex_chat_ext ex_joined \<and>
   (\<exists>members. rooms ex_joined ''general'' = Some members \<and> distinct members \<and> 11 \<in> set members \<and>
      new_writes (cnet ex_joined)
        (cnet (on_data ex_chat_ext 11 \<lparr>m_room = ''general'', m_text = '' hello ''\<rparr> 12 ex_joined)) =
      map (\<lambda>d. (d, hello)) members) \<and>
   destroyed (on_data ex_chat_ext 11 \<lparr>m_room = ''  '', m_text = ''hello''\<rparr> 12 ex_joined) =
     [(11, InvalidArgument (''room '' @ [CHR 0xE9] @ '' obrigat'' @ [CHR 0xF3] @ ''rio''))]"
proof -
  have j: "joinedRoom (streams ex_joined 11) = Some ''general''" by code_simp
  have u: "suser (streams ex_joined 11) = Some ana" by code_simp
  have d: "destroyed ex_joined = []" by code_simp
  from text_broadcast_to_all_members [OF ex_joined_reachable j u,
        of "\<lparr>m_room = ''  '', m_text = ''hello''\<rparr>" 12]
  have "on_data ex_chat_ext 11 \<lparr>m_room = ''  '', m_text = ''hello''\<rparr> 12 ex_joined =
          ex_joined\<lparr>destroyed := destroyed ex_joined @
             [(11, InvalidArgument (''room '' @ [CHR 0xE9] @ '' obrigat'' @ [CHR 0xF3] @ ''rio''))]\<rparr>"
    by (simp add: trim_blank)
  then have b: "destroyed (on_data ex_chat_ext 11 \<lparr>m_room = ''  '', m_text = ''hello''\<rparr> 12 ex_joined) =
     [(11, InvalidArgument (''room '' @ [CHR 0xE9] @ '' obrigat'' @ [CHR 0xF3] @ ''rio''))]"
    by (simp add: d)
  have "\<exists>members. rooms ex_joined ''general'' = Some members \<and> distinct members \<and> 11 \<in> set members \<and>
      new_writes (cnet ex_joined)
        (cnet (on_data ex_chat_ext 11 \<lparr>m_room = ''general'', m_text = '' hello ''\<rparr> 12 ex_joined)) =
      map (\<lambda>d. (d, hello)) members"
    using text_broadcast_to_all_members [OF ex_joined_reachable j u,
        of "\<lparr>m_room = ''general'', m_text = '' hello ''\<rparr>" 12]
    by (simp add: trim_general trim_hello hello_def ana_def) blast
  with ex_joined_reachable b show ?thesis by blast
qed

text \<open>
  C1 as stated fails: in the run of the two joins, connection 11 sends \<open>hello\<close> and is
  itself written the message, before connection 12; and the same text under a blank
  \<open>room\<close> reaches nobody.
\<close>

theorem sender_receives_copy:
  "joinedRoom (streams ex_joined 11) = Some ''general'' \<and>
   new_writes (cnet ex_joined)
     (cnet (on_data ex_chat_ext 11 \<lparr>m_room = ''general'', m_text = ''hello''\<rparr> 12 ex_joined)) =
     [(11, hello), (12, hello)] \<and>
   new_writes (cnet ex_joined)
     (cnet (on_data ex_chat_ext 11 \<lparr>m_room = ''  '', m_text = ''hello''\<rparr> 12 ex_joined)) = []"
  by code_simp

section \<open>A write that fails\<close>

lemma ex_tstate_keys: "distinct (map fst (streamingSessions ex_tstate))"
  by (simp add: ex_tstate_def)

lemma ex_tstate_calls: "distinct (map (call \<circ> snd) (streamingSessions ex_tstate))"
  by (simp add: ex_tstate_def)

text \<open>
  C2, as the source has it. A broadcast writes to every member of the room but the
  excluded one, whatever write throws, so every other member whose connection works
  receives the message; the member whose write throws stays in the room, since the
  \<open>catch\<close> of \<open>_broadcast\<close> is empty. A dispatch of a task event writes to every matching
  session, so every other session receives its payload, and the session whose write
  throws is deleted from the registry, and only that one.
\<close>

theorem partial_failure_isolation:
  assumes "rooms s r = Some members" and "distinct members" and "k \<in> set members"
    and "wfails (cnet s) k" and "\<forall>c \<in> set members. c \<noteq> k \<longrightarrow> \<not> wfails (cnet s) c"
    and "distinct (map fst (streamingSessions ts))"
    and "distinct (map (call \<circ> snd) (streamingSessions ts))"
    and "(j, sj) \<in> set (streamingSessions ts)" and "session_payload tp a t now sj \<noteq> None"
    and "wfails (tnet ts) (call sj)"
    and "\<forall>e \<in> set (streamingSessions ts). fst e \<noteq> j \<longrightarrow> \<not> wfails (tnet ts) (call (snd e))"
  shows "(\<forall>c \<in> set members. c \<noteq> k \<and> Some c \<noteq> ex \<longrightarrow>
            received (cnet (broadcast r m ex s)) c = received (cnet s) c @ [m])
       \<and> rooms (broadcast r m ex s) r = Some members
       \<and> (\<forall>e \<in> set (streamingSessions ts). fst e \<noteq> j \<longrightarrow>
            received (tnet (notifyStreams tp a t now ts)) (call (snd e)) =
              received (tnet ts) (call (snd e)) @ map snd (session_writes tp a t now e))
       \<and> streamingSessions (notifyStreams tp a t now ts) = AList.delete j (streamingSessions ts)"
proof (intro conjI ballI impI)
  fix c assume "c \<in> set members" "c \<noteq> k \<and> Some c \<noteq> ex"
  with assms(1,2,5) show "received (cnet (broadcast r m ex s)) c = received (cnet s) c @ [m]"
    by (simp add: received_broadcast)
next
  show "rooms (broadcast r m ex s) r = Some members" using assms(1) by simp
next
  fix e assume e: "e \<in> set (streamingSessions ts)" "fst e \<noteq> j"
  with assms(11) have "\<not> wfails (tnet ts) (call (snd e))" by blast
  with received_notifyStreams [OF assms(6,7), of "fst e" "snd e" tp a t now] e(1)
  show "received (tnet (notifyStreams tp a t now ts)) (call (snd e)) =
          received (tnet ts) (call (snd e)) @ map snd (session_writes tp a t now e)"
    by simp
next
  have "streamingSessions (notifyStreams tp a t now ts) =
          filter (\<lambda>e. \<not> (session_writes tp a t now e \<noteq> [] \<and> wfails (tnet ts) (call (snd e))))
            (streamingSessions ts)"
    using assms(6) by (rule sessions_notifyStreams)
  also have "\<dots> = filter (\<lambda>e. e \<noteq> (j, sj)) (streamingSessions ts)"
  proof (rule filter_cong [OF refl])
    fix e assume e: "e \<in> set (streamingSessions ts)"
    show "(\<not> (session_writes tp a t now e \<noteq> [] \<and> wfails (tnet ts) (call (snd e)))) = (e \<noteq> (j, sj))"
    proof (cases "e = (j, sj)")
      case True
      with assms(9,10) show ?thesis by (auto simp: session_writes_def)
    next
      case False
      with e assms(6,8) have "fst e \<noteq> j"
        by (metis eq_key_imp_eq_value prod.collapse)
      with e assms(11) False show ?thesis by blast
    qed
  qed
  also have "\<dots> = AList.delete j (streamingSessions ts)"
    using delete_as_filter [OF assms(6,8)] by simp
  finally show "streamingSessions (notifyStreams tp a t now ts) = AList.delete j (streamingSessions ts)" .
qed

theorem partial_failure_isolation_witness:
  "received (cnet (broadcast ''general'' hello None ex_room3)) 11 = [hello] \<and>
   received (cnet (broadcast ''general'' hello None ex_room3)) 13 = [hello] \<and>
   rooms (broadcast ''general'' hello None ex_room3) ''general'' = Some [11, 12, 13] \<and>
   received (tnet (notifyStreams t_title ''TASK_CREATED'' ex_task 7 ex_tstate)) 11 =
     [TaskPb ''write report''] \<and>
   streamingSessions (notifyStreams t_title ''TASK_CREATED'' ex_task 7 ex_tstate) =
     [(''s1'', \<lparr>call = 11, userId = ''U1'', stype = None, sfilter = Some (JBool False)\<rparr>),
      (''s2'', \<lparr>call = 12, userId = ''U2'', stype = None, sfilter = Some JUndefined\<rparr>)]"
proof -
  have h1: "rooms ex_room3 ''general'' = Some [11, 12, 13]" by (simp add: ex_room3_def)
  have h2: "distinct [11, 12, 13 :: nat]" by simp
  have h3: "12 \<in> set [11, 12, 13 :: nat]" by simp
  have h4: "wfails (cnet ex_room3) 12" by (simp add: ex_room3_def)
  have h5: "\<forall>c \<in> set [11, 12, 13 :: nat]. c \<noteq> 12 \<longrightarrow> \<not> wfails (cnet ex_room3) c"
    by (simp add: ex_room3_def)
  have h8: "(''s3'', \<lparr>call = 13, userId = ''U1'', stype = Some ''notifications'', sfilter = None\<rparr>)
              \<in> set (streamingSessions ex_tstate)"
    by (simp add: ex_tstate_def)
  have h9: "session_payload t_title ''TASK_CREATED'' ex_task 7
              \<lparr>call = 13, userId = ''U1'', stype = Some ''notifications'', sfilter = None\<rparr> \<noteq> None"
    by (simp add: session_payload_def ex_task_def)
  have h10: "wfails (tnet ex_tstate)
               (call \<lparr>call = 13, userId = ''U1'', stype = Some ''notifications'', sfilter = None\<rparr>)"
    by (simp add: ex_tstate_def)
  have h11: "\<forall>e \<in> set (streamingSessions ex_tstate). fst e \<noteq> ''s3'' \<longrightarrow>
               \<not> wfails (tnet ex_tstate) (call (snd e))"
    by (simp add: ex_tstate_def)
  have r0: "received (cnet ex_room3) 11 = []" "received (cnet ex_room3) 13 = []"
    by (simp_all add: received_def ex_room3_def)
  have r1: "received (tnet ex_tstate) 11 = []"
    by (simp add: received_def ex_tstate_def)
  have w1: "session_writes t_title ''TASK_CREATED'' ex_task 7
              (''s1'', \<lparr>call = 11, userId = ''U1'', stype = None, sfilter = Some (JBool False)\<rparr>) =
            [(11, TaskPb ''write report'')]"
    by (simp add: session_writes_def session_payload_def ex_task_def)
  have d: "AList.delete ''s3'' (streamingSessions ex_tstate) =
     [(''s1'', \<lparr>call = 11, userId = ''U1'', stype = None, sfilter = Some (JBool False)\<rparr>),
      (''s2'', \<lparr>call = 12, userId = ''U2'', stype = None, sfilter = Some JUndefined\<rparr>)]"
    by (simp add: ex_tstate_def)
  have s1: "(''s1'', \<lparr>call = 11, userId = ''U1'', stype = None, sfilter = Some (JBool False)\<rparr>)
              \<in> set (streamingSessions ex_tstate)"
    by (simp add: ex_tstate_def)
  note main = partial_failure_isolation [OF h1 h2 h3 h4 h5 ex_tstate_keys ex_tstate_calls h8 h9 h10 h11,
      of None hello]
  from main have "received (cnet (broadcast ''general'' hello None ex_room3)) 11 =
                    received (cnet ex_room3) 11 @ [hello]"
    and "received (cnet (broadcast ''general'' hello None ex_room3)) 13 =
                    received (cnet ex_room3) 13 @ [hello]"
    by simp_all
  moreover from main have "rooms (broadcast ''general'' hello None ex_room3) ''general'' = Some [11, 12, 13]"
    by simp
  moreover from main s1 have "received (tnet (notifyStreams t_title ''TASK_CREATED'' ex_task 7 ex_tstate)) 11 =
      received (tnet ex_tstate) 11 @
      map snd (session_writes t_title ''TASK_CREATED'' ex_task 7
        (''s1'', \<lparr>call = 11, userId = ''U1'', stype = None, sfilter = Some (JBool False)\<rparr>))"
    by fastforce
  moreover from main have "streamingSessions (notifyStreams t_title ''TASK_CREATED'' ex_task 7 ex_tstate) =
      AList.delete ''s3'' (streamingSessions ex_tstate)"
    by simp
  ultimately show ?thesis
    by (simp only: r0 r1 w1 d) simp
qed

text \<open>
  C2 as stated fails for the chat: after a broadcast to a room of three in which the
  write to connection 12 throws, connection 12 is still a member.
\<close>

theorem failing_member_stays:
  "wfails (cnet ex_room3) 12 \<and>
   new_writes (cnet ex_room3) (cnet (broadcast ''general'' hello None ex_room3)) =
     [(11, hello), (12, hello), (13, hello)] \<and>
   rooms (broadcast ''general'' hello None ex_room3) ''general'' = Some [11, 12, 13]"
  by code_simp

section \<open>Deleted events\<close>

text \<open>
  C3. When a \<open>TASK_DELETED\<close> event is dispatched, the writes of the dispatch are exactly
  one notification envelope for each notification session of the task's owner, in the
  order of the registry: type 2, the task, the message and the timestamp. Nothing is
  written to a task stream session, and no filter is consulted.
\<close>

theorem deleted_only_notifications:
  "wlog (tnet (notifyStreams tp ''TASK_DELETED'' t now s)) =
     wlog (tnet s) @
     map (\<lambda>e. (call (snd e),
                Envelope \<lparr>e_type = Some 2, e_task = Some (tp t),
                          e_message = ''Tarefa task deleted'', e_timestamp = now\<rparr>))
         (filter (\<lambda>e. userId (snd e) = t_userId t \<and> stype (snd e) = Some ''notifications'')
                 (streamingSessions s))"
  unfolding wlog_notifyStreams
  by (simp, rule concat_map_filter_single)
     (simp add: session_writes_def session_payload_def type_deleted lower_deleted split: option.splits)

section \<open>The filter of a task stream\<close>

text \<open>
  What the dispatcher does for a task stream session of the task's owner that is alone on
  its connection, and an event that is not \<open>TASK_DELETED\<close>: when the filter holds a
  boolean, the dispatch writes the task to the session once if the boolean equals
  \<open>task.completed\<close>, and nothing otherwise; when \<open>completed\<close> is \<open>undefined\<close>, the task is
  written once.
\<close>

theorem filter_correctness:
  assumes "distinct (map fst (streamingSessions s))" and "(sid, se) \<in> set (streamingSessions s)"
    and "\<forall>e \<in> set (streamingSessions s). call (snd e) = call se \<longrightarrow> fst e = sid"
    and "stype se \<noteq> Some ''notifications''" and "userId se = t_userId t"
    and "a \<noteq> ''TASK_DELETED''"
  shows "(sfilter se = Some (JBool b) \<longrightarrow>
            filter (\<lambda>w. fst w = call se) (new_writes (tnet s) (tnet (notifyStreams tp a t now s))) =
              (if b = t_completed t then [(call se, TaskPb (tp t))] else []))
       \<and> (sfilter se = Some JUndefined \<longrightarrow>
            filter (\<lambda>w. fst w = call se) (new_writes (tnet s) (tnet (notifyStreams tp a t now s))) =
              [(call se, TaskPb (tp t))])"
  unfolding session_writes_own_call [OF assms(1-3)]
  using assms(4-6) by (auto simp: session_writes_def session_payload_def)

theorem filter_correctness_witness:
  "filter (\<lambda>w. fst w = 11)
     (new_writes (tnet ex_tstate) (tnet (notifyStreams t_title ''TASK_CREATED'' ex_task 7 ex_tstate))) =
     [(11, TaskPb ''write report'')] \<and>
   filter (\<lambda>w. fst w = 11)
     (new_writes (tnet ex_tstate)
        (tnet (notifyStreams t_title ''TASK_UPDATED'' (ex_task\<lparr>t_completed := True\<rparr>) 8 ex_tstate))) = []"
proof -
  have h2: "(''s1'', \<lparr>call = 11, userId = ''U1'', stype = None, sfilter = Some (JBool False)\<rparr>)
              \<in> set (streamingSessions ex_tstate)"
    by (simp add: ex_tstate_def)
  have h3: "\<forall>e \<in> set (streamingSessions ex_tstate).
              call (snd e) = call \<lparr>call = 11, userId = ''U1'', stype = None, sfilter = Some (JBool False)\<rparr>
              \<longrightarrow> fst e = ''s1''"
    by (simp add: ex_tstate_def)
  have h4: "stype \<lparr>call = 11, userId = ''U1'', stype = None, sfilter = Some (JBool False)\<rparr>
              \<noteq> Some ''notifications''" by simp
  have h5: "userId \<lparr>call = 11, userId = ''U1'', stype = None, sfilter = Some (JBool False)\<rparr> = t_userId ex_task"
    by (simp add: ex_task_def)
  have h5': "userId \<lparr>call = 11, userId = ''U1'', stype = None, sfilter = Some (JBool False)\<rparr> =
               t_userId (ex_task\<lparr>t_completed := True\<rparr>)"
    by (simp add: ex_task_def)
  have h6: "''TASK_CREATED'' \<noteq> ''TASK_DELETED''" "''TASK_UPDATED'' \<noteq> ''TASK_DELETED''" by simp_all
  show ?thesis
    using filter_correctness [OF ex_tstate_keys h2 h3 h4 h5 h6(1), of False t_title 7]
      filter_correctness [OF ex_tstate_keys h2 h3 h4 h5' h6(2), of False t_title 8]
    by (simp add: ex_task_def)
qed

text \<open>
  A filter whose \<open>completed\<close> is \<open>null\<close> is not absent for the dispatcher, which tests
  \<open>completed === undefined\<close> only, and no boolean equals it: its session is written nothing.
\<close>

lemma null_filter_matches_nothing:
  "sfilter se = Some JNull \<Longrightarrow> stype se \<noteq> Some ''notifications'' \<Longrightarrow>
   session_payload tp a t now se = None"
  by (simp add: session_payload_def)

lemma null_filter_no_delivery:
  assumes "distinct (map fst (streamingSessions s))" and "(sid, se) \<in> set (streamingSessions s)"
    and "\<forall>e \<in> set (streamingSessions s). call (snd e) = call se \<longrightarrow> fst e = sid"
    and "stype se \<noteq> Some ''notifications''" and "sfilter se = Some JNull"
  shows "filter (\<lambda>w. fst w = call se) (new_writes (tnet s) (tnet (notifyStreams tp a t now s))) = []"
  unfolding session_writes_own_call [OF assms(1-3)]
  using assms(4,5) by (simp add: session_writes_def null_filter_matches_nothing)

text \<open>
  C4 asks that every event of the owner that is not a deletion be delivered to a task
  stream whose filter is absent. For \<open>streamTasks\<close> a \<open>completed\<close> of \<open>null\<close> is an absent
  filter: its query carries no condition on \<open>completed\<close>, as for \<open>undefined\<close>, and the
  replay writes the completed task of the store. The session keeps \<open>null\<close>, and the
  dispatch of a created task of the same owner writes nothing to it, where the same stream
  opened with \<open>undefined\<close> is written the task.
\<close>

theorem null_filter_receives_nothing:
  "stream_query ''U1'' JNull = stream_query ''U1'' JUndefined \<and>
   snd (streamTasks ex_ext 15 ''tok1'' JNull ex_db_all ''s5'' ex_tinit) = Opened ''s5'' \<and>
   new_writes (tnet ex_tinit) (tnet ex_null_open) = [(15, TaskPb ''write report'')] \<and>
   streamingSessions ex_null_open =
     [(''s5'', \<lparr>call = 15, userId = ''U1'', stype = None, sfilter = Some JNull\<rparr>)] \<and>
   new_writes (tnet ex_null_open)
     (tnet (notifyStreams t_title ''TASK_CREATED'' ex_task 7 ex_null_open)) = [] \<and>
   new_writes (tnet ex_undef_open)
     (tnet (notifyStreams t_title ''TASK_CREATED'' ex_task 7 ex_undef_open)) =
     [(15, TaskPb ''write report'')]"
  by code_simp

section \<open>Isolation by owner\<close>

text \<open>
  C5. In a dispatch for a task of owner A, the body of the loop does nothing for a
  session of another owner, and nothing is written to a connection whose sessions all
  belong to other owners.
\<close>

theorem owner_isolation:
  "(userId se \<noteq> t_userId t \<longrightarrow> notify_one tp a t now sid se s = s)
   \<and> ((\<forall>e \<in> set (streamingSessions s). call (snd e) = c \<longrightarrow> userId (snd e) \<noteq> t_userId t) \<longrightarrow>
        filter (\<lambda>w. fst w = c) (new_writes (tnet s) (tnet (notifyStreams tp a t now s))) = [])"
proof (intro conjI impI)
  assume "userId se \<noteq> t_userId t"
  then show "notify_one tp a t now sid se s = s" by (simp add: notify_one_def)
next
  assume other: "\<forall>e \<in> set (streamingSessions s). call (snd e) = c \<longrightarrow> userId (snd e) \<noteq> t_userId t"
  show "filter (\<lambda>w. fst w = c) (new_writes (tnet s) (tnet (notifyStreams tp a t now s))) = []"
    unfolding filter_empty_conv
  proof (intro ballI)
    fix w assume "w \<in> set (new_writes (tnet s) (tnet (notifyStreams tp a t now s)))"
    then obtain e where e: "e \<in> set (streamingSessions s)" and w: "w \<in> set (session_writes tp a t now e)"
      by (auto simp: new_writes_notifyStreams)
    show "fst w \<noteq> c"
    proof
      assume "fst w = c"
      with w have "call (snd e) = c" by (simp add: fst_session_writes)
      with other e have "userId (snd e) \<noteq> t_userId t" by blast
      with w show False by (simp add: session_writes_other_owner)
    qed
  qed
qed

theorem owner_isolation_witness:
  "new_writes (tnet ex_tstate) (tnet (notifyStreams t_title ''TASK_CREATED'' ex_task 7 ex_tstate)) \<noteq> [] \<and>
   notify_one t_title ''TASK_CREATED'' ex_task 7 ''s2''
     \<lparr>call = 12, userId = ''U2'', stype = None, sfilter = Some JUndefined\<rparr> ex_tstate = ex_tstate \<and>
   filter (\<lambda>w. fst w = 12)
     (new_writes (tnet ex_tstate) (tnet (notifyStreams t_title ''TASK_CREATED'' ex_task 7 ex_tstate))) = []"
proof -
  have h: "\<forall>e \<in> set (streamingSessions ex_tstate). call (snd e) = 12 \<longrightarrow> userId (snd e) \<noteq> t_userId ex_task"
    by (simp add: ex_tstate_def ex_task_def)
  have o: "userId \<lparr>call = 12, userId = ''U2'', stype = None, sfilter = Some JUndefined\<rparr> \<noteq> t_userId ex_task"
    by (simp add: ex_task_def)
  have n: "new_writes (tnet ex_tstate) (tnet (notifyStreams t_title ''TASK_CREATED'' ex_task 7 ex_tstate)) \<noteq> []"
    by code_simp
  from owner_isolation [of "\<lparr>call = 12, userId = ''U2'', stype = None, sfilter = Some JUndefined\<rparr>"
         ex_task t_title "''TASK_CREATED''" 7 "''s2''" ex_tstate 12] h o n
  show ?thesis by blast
qed
section \<open>Rooms without members\<close>

text \<open>
  C6. In every state the chat service can reach, a room name is a key of the registry
  exactly when its member set is not empty. A join of a room that is not a key creates
  it with the joining connection as its only member; the leave of the last member deletes
  the key in the same step; and a join of the same name after that creates the room
  again with the new member alone.
\<close>

theorem no_orphan_rooms:
  assumes "chat_reachable X s"
  shows "(rooms s r \<noteq> None \<longleftrightarrow> (case rooms s r of None \<Rightarrow> [] | Some ms \<Rightarrow> ms) \<noteq> [])
    \<and> (rooms s (trim (m_room msg)) = None \<and> trim (m_room msg) \<noteq> [] \<and>
         joinedRoom (streams s c) = None \<and>
         (suser (streams s c) = Some u \<or> (suser (streams s c) = None \<and> chat_validateToken X c = Inr u))
        \<longrightarrow> rooms (on_data X c msg now s) (trim (m_room msg)) = Some [c])
    \<and> (joinedRoom (streams s c) = Some r \<and> rooms s r = Some [c]
        \<longrightarrow> rooms (on_end c now s) r = None
          \<and> (trim (m_room msg) = r \<and> joinedRoom (streams s d) = None \<and> d \<noteq> c \<and>
               (suser (streams s d) = Some u \<or> (suser (streams s d) = None \<and> chat_validateToken X d = Inr u))
              \<longrightarrow> rooms (on_data X d msg now' (on_end c now s)) r = Some [d]))"
proof (intro conjI impI)
  from assms have inv: "chat_inv s" by (rule chat_reachable_inv)
  show "rooms s r \<noteq> None \<longleftrightarrow> (case rooms s r of None \<Rightarrow> [] | Some ms \<Rightarrow> ms) \<noteq> []"
    using inv unfolding chat_inv_def by (auto split: option.splits)
  {
    assume a: "rooms s (trim (m_room msg)) = None \<and> trim (m_room msg) \<noteq> [] \<and>
         joinedRoom (streams s c) = None \<and>
         (suser (streams s c) = Some u \<or> (suser (streams s c) = None \<and> chat_validateToken X c = Inr u))"
    then show "rooms (on_data X c msg now s) (trim (m_room msg)) = Some [c]"
      using on_data_join_rooms [of s c msg u X now] by (simp add: set_add_def)
  }
  {
    assume a: "joinedRoom (streams s c) = Some r \<and> rooms s r = Some [c]"
    with inv have r: "r \<noteq> []" unfolding chat_inv_def by blast
    with a have gone: "rooms (on_end c now s) = (rooms s)(r := None)"
      by (simp add: on_end_last_member)
    then show "rooms (on_end c now s) r = None" by simp
    {
      assume b: "trim (m_room msg) = r \<and> joinedRoom (streams s d) = None \<and> d \<noteq> c \<and>
               (suser (streams s d) = Some u \<or> (suser (streams s d) = None \<and> chat_validateToken X d = Inr u))"
      have st: "streams (on_end c now s) d = streams s d"
        using b by (simp add: on_end_def streams_leaveRoom)
      show "rooms (on_data X d msg now' (on_end c now s)) r = Some [d]"
        using b r gone st on_data_join_rooms [of "on_end c now s" d msg u X now']
        by (simp add: set_add_def)
    }
  }
qed

theorem no_orphan_rooms_witness:
  "chat_reachable ex_chat_ext ex_alone \<and>
   rooms ex_alone ''general'' = Some [11] \<and>
   rooms (on_end 11 20 ex_alone) ''general'' = None \<and>
   rooms (on_data ex_chat_ext 12 \<lparr>m_room = ''general'', m_text = []\<rparr> 30 (on_end 11 20 ex_alone))
     ''general'' = Some [12]"
proof -
  have j: "joinedRoom (streams ex_alone 11) = Some ''general''" by code_simp
  have m: "rooms ex_alone ''general'' = Some [11]" by code_simp
  have j2: "joinedRoom (streams ex_alone 12) = None" by code_simp
  have u2: "suser (streams ex_alone 12) = None" by code_simp
  have v2: "chat_validateToken ex_chat_ext 12 = Inr bob" by code_simp
  show ?thesis
    using ex_alone_reachable m j j2 u2 v2
      no_orphan_rooms [OF ex_alone_reachable, where r = "''general''" and c = 11 and d = 12
        and msg = "\<lparr>m_room = ''general'', m_text = []\<rparr>" and u = bob and now = 20 and now' = 30]
    by (simp add: trim_general)
qed

section \<open>A store write that fails\<close>

text \<open>
  C7. For every task mutation, when the store write fails or changes no row, no event is
  dispatched: the sessions and the connections are as before. \<open>updateTask\<close> and
  \<open>deleteTask\<close> test the number of rows changed; \<open>createTask\<close> does not read it, and the
  store answers its one-row \<open>INSERT\<close> with a rejection or with one row changed. In every
  mutation the state changes only when the write has resolved, for \<open>updateTask\<close> and
  \<open>deleteTask\<close> with at least one row changed.
\<close>

theorem store_failure_prevents_dispatch:
  "(run = Rejected m \<longrightarrow>
      fst (createTask X token title description priority uuid now run s) = s)
   \<and> (run = Rejected m \<or> run = Resolved 0 \<longrightarrow>
        fst (updateTask X token title' description' completed priority' existing run updated now s) = s
      \<and> fst (deleteTask X token existing run now s) = s)
   \<and> (insert_answer run \<and> (run = Rejected m \<or> run = Resolved 0) \<longrightarrow>
        fst (createTask X token title description priority uuid now run s) = s)
   \<and> (fst (createTask X token title description priority uuid now run s) \<noteq> s \<longrightarrow>
        (\<exists>n. run = Resolved n))
   \<and> (fst (updateTask X token title' description' completed priority' existing run updated now s) \<noteq> s
        \<longrightarrow> (\<exists>n. run = Resolved (Suc n)))
   \<and> (fst (deleteTask X token existing run now s) \<noteq> s \<longrightarrow> (\<exists>n. run = Resolved (Suc n)))"
proof (intro conjI impI)
  assume "run = Rejected m"
  then show "fst (createTask X token title description priority uuid now run s) = s"
    by (simp add: createTask_def Let_def split: sum.splits option.splits)
next
  assume "run = Rejected m \<or> run = Resolved 0"
  then show "fst (updateTask X token title' description' completed priority' existing run updated now s) = s"
    by (auto simp: updateTask_def split: sum.splits dbres.splits option.splits)
next
  assume "run = Rejected m \<or> run = Resolved 0"
  then show "fst (deleteTask X token existing run now s) = s"
    by (auto simp: deleteTask_def split: sum.splits dbres.splits option.splits)
next
  assume "insert_answer run \<and> (run = Rejected m \<or> run = Resolved 0)"
  then have "run = Rejected m" by (auto simp: insert_answer_def)
  then show "fst (createTask X token title description priority uuid now run s) = s"
    by (simp add: createTask_def Let_def split: sum.splits option.splits)
next
  assume "fst (createTask X token title description priority uuid now run s) \<noteq> s"
  then show "\<exists>n. run = Resolved n"
    by (cases run) (simp_all add: createTask_def Let_def split: sum.splits option.splits)
next
  assume changed: "fst (updateTask X token title' description' completed priority' existing run updated now s) \<noteq> s"
  show "\<exists>n. run = Resolved (Suc n)"
  proof (cases run)
    case (Rejected e)
    with changed show ?thesis
      by (simp add: updateTask_def split: sum.splits dbres.splits option.splits)
  next
    case (Resolved k)
    have "k \<noteq> 0"
    proof
      assume "k = 0"
      with Resolved changed show False
        by (simp add: updateTask_def split: sum.splits dbres.splits option.splits)
    qed
    with Resolved show ?thesis by (simp add: not0_implies_Suc)
  qed
next
  assume changed: "fst (deleteTask X token existing run now s) \<noteq> s"
  show "\<exists>n. run = Resolved (Suc n)"
  proof (cases run)
    case (Rejected e)
    with changed show ?thesis
      by (simp add: deleteTask_def split: sum.splits dbres.splits option.splits)
  next
    case (Resolved k)
    have "k \<noteq> 0"
    proof
      assume "k = 0"
      with Resolved changed show False
        by (simp add: deleteTask_def split: sum.splits dbres.splits option.splits)
    qed
    with Resolved show ?thesis by (simp add: not0_implies_Suc)
  qed
qed

theorem store_failure_prevents_dispatch_witness:
  "insert_answer (Rejected ''SQLITE_BUSY'') \<and>
   fst (createTask ex_ext ''tok1'' (Some ''Buy milk'') None 2 ''T9'' 6 (Rejected ''SQLITE_BUSY'') ex_tstate)
     = ex_tstate \<and>
   fst (updateTask ex_ext ''tok1'' None None (Some True) None (Resolved (Some ex_row))
          (Resolved 0) (Resolved (Some ex_row)) 6 ex_tstate) = ex_tstate \<and>
   fst (deleteTask ex_ext ''tok1'' (Resolved (Some ex_row)) (Resolved 0) 6 ex_tstate) = ex_tstate \<and>
   fst (deleteTask ex_ext ''tok1'' (Resolved (Some ex_row)) (Rejected ''SQLITE_BUSY'') 6 ex_tstate)
     = ex_tstate"
proof -
  have a: "insert_answer (Rejected ''SQLITE_BUSY'')" by (simp add: insert_answer_def)
  show ?thesis
    using a
      store_failure_prevents_dispatch [of "Rejected ''SQLITE_BUSY''" "''SQLITE_BUSY''" ex_ext "''tok1''"
          "Some ''Buy milk''" None 2 "''T9''" 6 ex_tstate None None "Some True" None
          "Resolved (Some ex_row)" "Resolved (Some ex_row)"]
      store_failure_prevents_dispatch [of "Resolved 0" "''SQLITE_BUSY''" ex_ext "''tok1''"
          "Some ''Buy milk''" None 2 "''T9''" 6 ex_tstate None None "Some True" None
          "Resolved (Some ex_row)" "Resolved (Some ex_row)"]
    by simp
qed

section \<open>Cleanup twice\<close>

text \<open>
  C8. Deleting a session id twice leaves the registry as deleting it once, and deleting
  an id that is not registered changes nothing. Leaving a room twice on the same
  connection leaves the state as leaving once, and leaving on a connection that has joined
  no room changes nothing. Neither operation has an error result.
\<close>

theorem idempotent_cleanup:
  "on_cancelled sid (on_cancelled sid ts) = on_cancelled sid ts
   \<and> (sid \<notin> fst ` set (streamingSessions ts) \<longrightarrow> on_cancelled sid ts = ts)
   \<and> leaveRoom c now' (leaveRoom c now s) = leaveRoom c now s
   \<and> on_end c now' (on_end c now s) = on_end c now s
   \<and> (joinedRoom (streams s c) = None \<longrightarrow> leaveRoom c now s = s)"
proof (intro conjI impI)
  show "on_cancelled sid (on_cancelled sid ts) = on_cancelled sid ts"
    by (simp add: on_cancelled_def AList.delete_idem)
next
  assume "sid \<notin> fst ` set (streamingSessions ts)"
  then have "AList.delete sid (streamingSessions ts) = streamingSessions ts"
    by (rule AList.delete_id)
  then show "on_cancelled sid ts = ts"
    by (simp add: on_cancelled_def)
next
  show "leaveRoom c now' (leaveRoom c now s) = leaveRoom c now s"
    by (rule leaveRoom_twice)
  then show "on_end c now' (on_end c now s) = on_end c now s"
    by (simp add: on_end_def)
next
  assume "joinedRoom (streams s c) = None"
  then show "leaveRoom c now s = s"
    by (rule leaveRoom_unjoined)
qed

theorem idempotent_cleanup_witness:
  "on_cancelled ''s1'' (on_cancelled ''s1'' ex_tstate) = on_cancelled ''s1'' ex_tstate \<and>
   on_cancelled ''s9'' ex_tstate = ex_tstate \<and>
   on_end 11 21 (on_end 11 20 ex_joined) = on_end 11 20 ex_joined \<and>
   leaveRoom 17 20 ex_joined = ex_joined"
proof -
  have a: "''s9'' \<notin> fst ` set (streamingSessions ex_tstate)" by (simp add: ex_tstate_def)
  have b: "joinedRoom (streams ex_joined 17) = None" by code_simp
  show ?thesis
    using a idempotent_cleanup [of "''s9''" ex_tstate 11 21 20 ex_joined]
      idempotent_cleanup [of "''s1''" ex_tstate 17 21 20 ex_joined] b
    by simp
qed

section \<open>The first envelope of a notification stream\<close>

text \<open>
  C9. Opening a notification stream with a token that verifies writes one envelope to the
  connection and nothing else: type 0, which is also the type of \<open>TASK_CREATED\<close>, the
  message \<open>Stream de notificacoes iniciado\<close> (with its cedilla and tilde), the timestamp, no
  task. The session is registered in the same step, so whatever a later dispatch writes to
  the connection comes after that envelope.
\<close>

theorem initial_envelope_first:
  assumes "jwt_verify X token = Some u"
  shows "new_writes (tnet s) (tnet (fst (streamNotifications X c token uuid now s))) =
           [(c, Envelope \<lparr>e_type = Some 0, e_task = None,
                          e_message = ''Stream de notifica'' @ [CHR 0xE7, CHR 0xF5] @ ''es iniciado'',
                          e_timestamp = now\<rparr>)]
       \<and> notificationTypeMap ''TASK_CREATED'' = Some 0
       \<and> streamingSessions (fst (streamNotifications X c token uuid now s)) =
           AList.update uuid \<lparr>call = c, userId = u_id u, stype = Some ''notifications'', sfilter = None\<rparr>
             (streamingSessions s)
       \<and> wlog (tnet (notifyStreams tp a t now' (fst (streamNotifications X c token uuid now s)))) =
           wlog (tnet s) @
           (c, Envelope \<lparr>e_type = Some 0, e_task = None,
                          e_message = ''Stream de notifica'' @ [CHR 0xE7, CHR 0xF5] @ ''es iniciado'',
                          e_timestamp = now\<rparr>) #
           concat (map (session_writes tp a t now')
                     (streamingSessions (fst (streamNotifications X c token uuid now s))))"
proof -
  have w: "wlog (tnet (fst (streamNotifications X c token uuid now s))) =
          wlog (tnet s) @ [(c, Envelope (initial_envelope now))]"
    using assms
    by (simp add: streamNotifications_def task_validateToken_def call_write_def Let_def)
  have r: "streamingSessions (fst (streamNotifications X c token uuid now s)) =
           AList.update uuid \<lparr>call = c, userId = u_id u, stype = Some ''notifications'', sfilter = None\<rparr>
             (streamingSessions s)"
    using assms
    by (simp add: streamNotifications_def task_validateToken_def call_write_def Let_def)
  show ?thesis
    using w r by (simp add: new_writes_def wlog_notifyStreams initial_envelope_def type_created)
qed

theorem initial_envelope_first_witness:
  "jwt_verify ex_ext ''tok1'' = Some ana \<and>
   new_writes (tnet ex_tstate) (tnet (fst (streamNotifications ex_ext 14 ''tok1'' ''s4'' 5 ex_tstate))) =
     [(14, Envelope \<lparr>e_type = Some 0, e_task = None,
                     e_message = ''Stream de notifica'' @ [CHR 0xE7, CHR 0xF5] @ ''es iniciado'',
                     e_timestamp = 5\<rparr>)]"
proof -
  have h: "jwt_verify ex_ext ''tok1'' = Some ana" by (simp add: ex_ext_def ex_verify_def)
  show ?thesis
    using h initial_envelope_first [OF h, of ex_tstate 14 "''s4''" 5] by simp
qed

section \<open>The actions that are dispatched\<close>

lemma ex_run_reachable: "task_reachable ex_ext ex_run"
  unfolding ex_run_def ex_tinit_def by (intro task_reachable.intros)

text \<open>
  C10. In every state the task service can reach, every notification envelope that was
  written has type 0, 1 or 2, never the type 3 that the map of the dispatcher gives to
  \<open>TASK_COMPLETED\<close>: \<open>createTask\<close> dispatches \<open>TASK_CREATED\<close> or nothing, \<open>updateTask\<close>
  dispatches \<open>TASK_UPDATED\<close> or nothing whatever the \<open>completed\<close> of the request, and
  \<open>deleteTask\<close> dispatches \<open>TASK_DELETED\<close> or nothing.
\<close>

theorem no_completed_events:
  assumes "task_reachable X s"
  shows "(\<forall>w \<in> set (wlog (tnet s)). \<forall>e. snd w = Envelope e \<longrightarrow>
            e_type e \<in> {Some 0, Some 1, Some 2} \<and> e_type e \<noteq> notificationTypeMap ''TASK_COMPLETED'')
       \<and> (\<exists>t. fst (createTask X token title description priority uuid now run s) \<in>
                 {s, notifyStreams (toProtobuf X) ''TASK_CREATED'' t now s})
       \<and> (\<exists>t. fst (updateTask X token title description completed priority' existing run updated now s) \<in>
                 {s, notifyStreams (toProtobuf X) ''TASK_UPDATED'' t now s})
       \<and> (\<exists>t. fst (deleteTask X token existing run now s) \<in>
                 {s, notifyStreams (toProtobuf X) ''TASK_DELETED'' t now s})"
proof (intro conjI)
  have "list_all (\<lambda>w. typed_ok (snd w)) (wlog (tnet s))"
    using assms by (rule task_reachable_typed_ok)
  then show "\<forall>w \<in> set (wlog (tnet s)). \<forall>e. snd w = Envelope e \<longrightarrow>
            e_type e \<in> {Some 0, Some 1, Some 2} \<and> e_type e \<noteq> notificationTypeMap ''TASK_COMPLETED''"
    by (auto simp: list_all_iff typed_ok_def notificationTypeMap_def)
next
  show "\<exists>t. fst (createTask X token title description priority uuid now run s) \<in>
                 {s, notifyStreams (toProtobuf X) ''TASK_CREATED'' t now s}"
    using createTask_cases [of X token title description priority uuid now run s] by simp
next
  show "\<exists>t. fst (updateTask X token title description completed priority' existing run updated now s) \<in>
                 {s, notifyStreams (toProtobuf X) ''TASK_UPDATED'' t now s}"
    using updateTask_cases [of X token title description completed priority' existing run updated now s]
    by simp
next
  show "\<exists>t. fst (deleteTask X token existing run now s) \<in>
                 {s, notifyStreams (toProtobuf X) ''TASK_DELETED'' t now s}"
    using deleteTask_cases [of X token existing run now s] by simp
qed

theorem no_completed_events_witness:
  "task_reachable ex_ext ex_run \<and>
   (14, Envelope \<lparr>e_type = Some 0, e_task = Some ''Buy milk'',
                  e_message = ''Tarefa task created'', e_timestamp = 6\<rparr>) \<in> set (wlog (tnet ex_run)) \<and>
   e_type \<lparr>e_type = Some 0, e_task = Some ''Buy milk'',
           e_message = ''Tarefa task created'', e_timestamp = 6\<rparr>
     \<noteq> notificationTypeMap ''TASK_COMPLETED''"
proof -
  have m: "(14, Envelope \<lparr>e_type = Some 0, e_task = Some ''Buy milk'',
                  e_message = ''Tarefa task created'', e_timestamp = 6\<rparr>) \<in> set (wlog (tnet ex_run))"
    by code_simp
  from no_completed_events [OF ex_run_reachable] m
  have "e_type \<lparr>e_type = Some 0, e_task = Some ''Buy milk'',
           e_message = ''Tarefa task created'', e_timestamp = 6\<rparr>
     \<noteq> notificationTypeMap ''TASK_COMPLETED''"
    by fastforce
  with ex_run_reachable m show ?thesis by simp
qed

end
